theory Spec2Isabelle
  imports Complex_Main
begin

section \<open>JavaScript numbers\<close>

text \<open>
  The reel engine computes with JavaScript numbers. Two models of them are used. In the
  first one, of this section, they are the real numbers extended with the two infinities
  and NaN. Finite results are exact: rounding, overflow of finite values and the sign of
  zero are not modelled (a zero divisor counts as +0). Division, remainder and the
  comparisons follow the language: \<^verbatim>\<open>x / 0\<close> is an infinity or NaN,
  \<^verbatim>\<open>x % 0\<close> is NaN, and every comparison with NaN is false. This model carries the
  options, the drawing and the mode changes. The spin kinematics depends on rounding; it
  is modelled a second time with double-precision numbers, in the sections on double
  precision below.
\<close>

datatype jsnum = Fin real | PInf | NInf | NaN

fun js_neg :: "jsnum \<Rightarrow> jsnum" where
  "js_neg (Fin a) = Fin (- a)"
| "js_neg PInf = NInf"
| "js_neg NInf = PInf"
| "js_neg NaN = NaN"

fun js_add :: "jsnum \<Rightarrow> jsnum \<Rightarrow> jsnum" where
  "js_add (Fin a) (Fin b) = Fin (a + b)"
| "js_add (Fin a) PInf = PInf"
| "js_add (Fin a) NInf = NInf"
| "js_add PInf (Fin b) = PInf"
| "js_add PInf PInf = PInf"
| "js_add PInf NInf = NaN"
| "js_add NInf (Fin b) = NInf"
| "js_add NInf PInf = NaN"
| "js_add NInf NInf = NInf"
| "js_add NaN b = NaN"
| "js_add a NaN = NaN"

definition js_sub :: "jsnum \<Rightarrow> jsnum \<Rightarrow> jsnum" where
  "js_sub a b = js_add a (js_neg b)"

text \<open>An infinity times a finite factor: NaN at zero, otherwise the sign of the product.\<close>

definition inf_times :: "bool \<Rightarrow> real \<Rightarrow> jsnum" where
  "inf_times pos a = (if a = 0 then NaN else if (0 < a) = pos then PInf else NInf)"

fun js_mul :: "jsnum \<Rightarrow> jsnum \<Rightarrow> jsnum" where
  "js_mul (Fin a) (Fin b) = Fin (a * b)"
| "js_mul (Fin a) PInf = inf_times True a"
| "js_mul (Fin a) NInf = inf_times False a"
| "js_mul PInf (Fin b) = inf_times True b"
| "js_mul NInf (Fin b) = inf_times False b"
| "js_mul PInf PInf = PInf"
| "js_mul PInf NInf = NInf"
| "js_mul NInf PInf = NInf"
| "js_mul NInf NInf = PInf"
| "js_mul NaN b = NaN"
| "js_mul a NaN = NaN"

fun js_div :: "jsnum \<Rightarrow> jsnum \<Rightarrow> jsnum" where
  "js_div (Fin a) (Fin b) =
     (if b = 0 then (if a = 0 then NaN else if 0 < a then PInf else NInf)
      else Fin (a / b))"
| "js_div (Fin a) PInf = Fin 0"
| "js_div (Fin a) NInf = Fin 0"
| "js_div PInf (Fin b) = (if 0 \<le> b then PInf else NInf)"
| "js_div NInf (Fin b) = (if 0 \<le> b then NInf else PInf)"
| "js_div PInf PInf = NaN"
| "js_div PInf NInf = NaN"
| "js_div NInf PInf = NaN"
| "js_div NInf NInf = NaN"
| "js_div NaN b = NaN"
| "js_div a NaN = NaN"

text \<open>Rounding towards zero, as the remainder operator does.\<close>

definition trunc :: "real \<Rightarrow> int" where
  "trunc x = (if 0 \<le> x then \<lfloor>x\<rfloor> else \<lceil>x\<rceil>)"

text \<open>The operator \<^verbatim>\<open>%\<close>: the remainder has the sign of the dividend.\<close>

fun js_rem :: "jsnum \<Rightarrow> jsnum \<Rightarrow> jsnum" where
  "js_rem (Fin a) (Fin b) =
     (if b = 0 then NaN else Fin (a - b * of_int (trunc (a / b))))"
| "js_rem (Fin a) PInf = Fin a"
| "js_rem (Fin a) NInf = Fin a"
| "js_rem PInf b = NaN"
| "js_rem NInf b = NaN"
| "js_rem NaN b = NaN"
| "js_rem (Fin a) NaN = NaN"

fun js_lt :: "jsnum \<Rightarrow> jsnum \<Rightarrow> bool" where
  "js_lt (Fin a) (Fin b) = (a < b)"
| "js_lt (Fin a) PInf = True"
| "js_lt NInf (Fin b) = True"
| "js_lt NInf PInf = True"
| "js_lt a b = False"

fun js_le :: "jsnum \<Rightarrow> jsnum \<Rightarrow> bool" where
  "js_le (Fin a) (Fin b) = (a \<le> b)"
| "js_le (Fin a) PInf = True"
| "js_le NInf (Fin b) = True"
| "js_le NInf PInf = True"
| "js_le PInf PInf = True"
| "js_le NInf NInf = True"
| "js_le a b = False"

definition js_gt :: "jsnum \<Rightarrow> jsnum \<Rightarrow> bool" where
  "js_gt a b = js_lt b a"

definition js_ge :: "jsnum \<Rightarrow> jsnum \<Rightarrow> bool" where
  "js_ge a b = js_le b a"

text \<open>Strict equality of numbers: NaN equals nothing, itself included.\<close>

definition js_eq :: "jsnum \<Rightarrow> jsnum \<Rightarrow> bool" where
  "js_eq a b = (a \<noteq> NaN \<and> a = b)"

fun js_abs :: "jsnum \<Rightarrow> jsnum" where
  "js_abs (Fin a) = Fin \<bar>a\<bar>"
| "js_abs PInf = PInf"
| "js_abs NInf = PInf"
| "js_abs NaN = NaN"

fun js_floor :: "jsnum \<Rightarrow> jsnum" where
  "js_floor (Fin a) = Fin (of_int \<lfloor>a\<rfloor>)"
| "js_floor a = a"

text \<open>\<^verbatim>\<open>Math.min\<close> of two numbers: NaN as soon as one argument is NaN.\<close>

definition js_min :: "jsnum \<Rightarrow> jsnum \<Rightarrow> jsnum" where
  "js_min a b = (if a = NaN \<or> b = NaN then NaN else if js_le a b then a else b)"

text \<open>Truthiness of a number: zero and NaN are falsy.\<close>

definition truthy :: "jsnum \<Rightarrow> bool" where
  "truthy a = (a \<noteq> Fin 0 \<and> a \<noteq> NaN)"

text \<open>Conversion of a nullable number to a number: null counts as 0.\<close>

definition to_number :: "jsnum option \<Rightarrow> jsnum" where
  "to_number v = (case v of None \<Rightarrow> Fin 0 | Some a \<Rightarrow> a)"

text \<open>
  \<^verbatim>\<open>opts.x || d\<close> takes the default for an absent and for a falsy value,
  \<^verbatim>\<open>opts.x ?? d\<close> only for an absent one.
\<close>

definition num_or :: "jsnum option \<Rightarrow> jsnum \<Rightarrow> jsnum" where
  "num_or v d = (case v of None \<Rightarrow> d | Some a \<Rightarrow> if truthy a then a else d)"

definition num_nullish :: "jsnum option \<Rightarrow> jsnum \<Rightarrow> jsnum" where
  "num_nullish v d = (case v of None \<Rightarrow> d | Some a \<Rightarrow> a)"

definition str_or :: "string option \<Rightarrow> string \<Rightarrow> string" where
  "str_or v d = (case v of None \<Rightarrow> d | Some a \<Rightarrow> if a = [] then d else a)"

definition of_len :: "'a list \<Rightarrow> jsnum" where
  "of_len xs = Fin (real (length xs))"


section \<open>The engine state\<close>

text \<open>
  The options object handed to the constructor: every option may be absent.
\<close>

record opts =
  opt_font :: "string option"
  opt_colors :: "string list option"
  opt_bg :: "string option"
  opt_speed :: "jsnum option"
  opt_fontWeight :: "string option"
  opt_fadeOutAlpha :: "jsnum option"
  opt_zoomScale :: "jsnum option"
  opt_lineSpacing :: "jsnum option"
  opt_highlightDelay :: "jsnum option"
  opt_highlightAnimDuration :: "jsnum option"
  opt_fadeGradientColor :: "string option"
  opt_fadeGradientAlpha :: "jsnum option"
  opt_fadeGradientPower :: "jsnum option"

text \<open>The second argument of \<^verbatim>\<open>spin\<close> and \<^verbatim>\<open>spinTo\<close>.\<close>

record spin_opts =
  opt_rotations :: "jsnum option"

text \<open>
  What the engine reads from its surroundings: the window size, the text measurement
  (ascent and descent of the sample text under a font string), the clock
  \<^verbatim>\<open>performance.now()\<close> and the next value of \<^verbatim>\<open>Math.random()\<close>.
\<close>

record browser =
  innerWidth :: jsnum
  innerHeight :: jsnum
  measureText :: "string \<Rightarrow> jsnum \<times> jsnum"
  performanceNow :: jsnum
  mathRandom :: jsnum

datatype mode = Loop | Spin | Pause | Highlight | Idle

text \<open>
  The fields of a \<^verbatim>\<open>Reeler\<close> (private fields without their underscore). The
  canvas size is part of the state. \<open>raf\<close> tells whether \<^verbatim>\<open>_raf\<close> holds a request
  handle (a handle is a positive integer, hence truthy), and \<open>rafRequests\<close> counts the
  calls of \<^verbatim>\<open>requestAnimationFrame\<close> made so far.
\<close>

record reeler =
  items :: "string list"
  font :: string
  colors :: "string list"
  bg :: string
  speed :: jsnum
  fontWeight :: "string option"
  fadeOutAlpha :: jsnum
  zoomScale :: jsnum
  lineSpacing :: jsnum
  highlightDelay :: jsnum
  highlightAnimDuration :: jsnum
  fadeGradientColor :: string
  fadeGradientAlpha :: jsnum
  fadeGradientPower :: jsnum
  mode :: mode
  offset :: jsnum
  targetIdx :: jsnum
  spinStart :: "jsnum option"
  spinT :: jsnum
  accel :: jsnum
  spinDist :: jsnum
  pauseStart :: "jsnum option"
  highlightStart :: "jsnum option"
  prevTS :: "jsnum option"
  canvasWidth :: jsnum
  canvasHeight :: jsnum
  fontHeight :: jsnum
  lineHeight :: jsnum
  raf :: bool
  rafRequests :: nat

section \<open>Public operations (revision v3.8R10)\<close>

definition requestAnimationFrame :: "reeler \<Rightarrow> reeler" where
  "requestAnimationFrame s = s\<lparr>raf := True, rafRequests := Suc (rafRequests s)\<rparr>"

definition fontString :: "reeler \<Rightarrow> string" where
  "fontString s =
     (case fontWeight s of
        None \<Rightarrow> font s
      | Some w \<Rightarrow> (if w = [] then font s else w @ '' '' @ font s))"

definition resize :: "browser \<Rightarrow> reeler \<Rightarrow> reeler" where
  "resize b s =
     (let s1 = s\<lparr>canvasWidth := innerWidth b, canvasHeight := innerHeight b\<rparr>;
          m = measureText b (fontString s1);
          s2 = s1\<lparr>fontHeight := js_add (fst m) (snd m)\<rparr>
      in s2\<lparr>lineHeight := js_mul (fontHeight s2) (lineSpacing s2)\<rparr>)"

definition startLoop :: "jsnum option \<Rightarrow> reeler \<Rightarrow> reeler" where
  "startLoop speedPxPerSec s =
     (let s1 = (case speedPxPerSec of
                  None \<Rightarrow> s
                | Some v \<Rightarrow> if truthy v then s\<lparr>speed := v\<rparr> else s);
          s2 = s1\<lparr>mode := Loop, prevTS := None\<rparr>
      in if raf s2 then s2 else requestAnimationFrame s2)"

definition stopLoop :: "reeler \<Rightarrow> reeler" where
  "stopLoop s = s\<lparr>mode := Idle\<rparr>"

definition constructor :: "browser \<Rightarrow> string list \<Rightarrow> opts \<Rightarrow> reeler" where
  "constructor b its opts =
     (let bg0 = str_or (opt_bg opts) ''#05193C'';
          s0 = \<lparr> items = its,
                 font = str_or (opt_font opts) ''120px \"Noto Sans JP\", sans-serif'',
                 colors = (case opt_colors opts of
                             None \<Rightarrow> [''#41ACF0'', ''#D793FF''] | Some cs \<Rightarrow> cs),
                 bg = bg0,
                 speed = num_or (opt_speed opts) (Fin 1500),
                 fontWeight = opt_fontWeight opts,
                 fadeOutAlpha = num_nullish (opt_fadeOutAlpha opts) (Fin (2 / 10)),
                 zoomScale = num_or (opt_zoomScale opts) (Fin (18 / 10)),
                 lineSpacing = num_or (opt_lineSpacing opts) (Fin (125 / 100)),
                 highlightDelay = num_or (opt_highlightDelay opts) (Fin 400),
                 highlightAnimDuration = num_or (opt_highlightAnimDuration opts) (Fin 1200),
                 fadeGradientColor = str_or (opt_fadeGradientColor opts) bg0,
                 fadeGradientAlpha = num_or (opt_fadeGradientAlpha opts) (Fin (6 / 10)),
                 fadeGradientPower = num_or (opt_fadeGradientPower opts) (Fin 1),
                 mode = Loop,
                 offset = Fin 0,
                 targetIdx = Fin 0,
                 spinStart = None,
                 spinT = Fin 0,
                 accel = Fin 0,
                 spinDist = Fin 0,
                 pauseStart = None,
                 highlightStart = None,
                 prevTS = None,
                 canvasWidth = Fin 0,
                 canvasHeight = Fin 0,
                 fontHeight = Fin 0,
                 lineHeight = Fin 0,
                 raf = False,
                 rafRequests = 0 \<rparr>
      in startLoop None (resize b s0))"

text \<open>
  \<^verbatim>\<open>spin(targetIndex = null, { rotations = 6 } = {})\<close>: an absent target is drawn at
  random, a given one is normalised by the double remainder.
\<close>

definition resolveTarget :: "browser \<Rightarrow> jsnum option \<Rightarrow> reeler \<Rightarrow> jsnum" where
  "resolveTarget b targetIndex s =
     (case targetIndex of
        None \<Rightarrow> js_floor (js_mul (mathRandom b) (of_len (items s)))
      | Some k \<Rightarrow>
          js_rem (js_add (js_rem k (of_len (items s))) (of_len (items s)))
                 (of_len (items s)))"

definition spin :: "browser \<Rightarrow> jsnum option \<Rightarrow> spin_opts \<Rightarrow> reeler \<Rightarrow> reeler" where
  "spin b targetIndex so s =
     (let rotations = num_nullish (opt_rotations so) (Fin 6);
          s1 = s\<lparr>targetIdx := resolveTarget b targetIndex s\<rparr>;
          cycle = js_mul (of_len (items s1)) (lineHeight s1);
          s2 = s1\<lparr>spinDist := js_add (js_mul rotations cycle)
                                     (js_mul (targetIdx s1) (lineHeight s1))\<rparr>;
          v0 = speed s2;
          s3 = s2\<lparr>accel := js_div (js_mul v0 v0) (js_mul (Fin 2) (spinDist s2))\<rparr>;
          s4 = s3\<lparr>spinT := js_div v0 (accel s3)\<rparr>
      in s4\<lparr>spinStart := None, mode := Spin\<rparr>)"

text \<open>\<^verbatim>\<open>items.indexOf(label)\<close>: the first position holding the label, if any.\<close>

fun indexOf :: "string list \<Rightarrow> string \<Rightarrow> nat option" where
  "indexOf [] l = None"
| "indexOf (x # xs) l =
     (if x = l then Some 0 else map_option Suc (indexOf xs l))"

definition spinTo :: "browser \<Rightarrow> string \<Rightarrow> spin_opts \<Rightarrow> reeler \<Rightarrow> bool \<times> reeler" where
  "spinTo b label so s =
     (case indexOf (items s) label of
        None \<Rightarrow> (False, s)
      | Some i \<Rightarrow> (True, spin b (Some (Fin (real i))) so s))"

text \<open>The hook \<^verbatim>\<open>onStop(idx)\<close> has an empty body.\<close>

definition onStop :: "jsnum \<Rightarrow> reeler \<Rightarrow> reeler" where
  "onStop i s = s"

section \<open>Drawing (revision v3.8R10)\<close>

text \<open>
  The canvas is the output of a frame: the model returns the drawing commands in the order
  the code issues them. \<^verbatim>\<open>_rgba(hex, a)\<close> formats a colour string from a hex
  colour and an alpha value; its two arguments are kept as they are.
\<close>

datatype css_colour = Rgba string jsnum

datatype fill_style =
  Solid string
| LinearGradient jsnum jsnum jsnum jsnum "(jsnum \<times> css_colour) list"

record text_row =
  row_idx :: nat
  row_x :: jsnum
  row_y :: jsnum
  row_scale :: jsnum
  row_alpha :: jsnum
  row_fill :: "string option"
  row_text :: string

datatype draw_cmd =
  FillRect fill_style jsnum jsnum jsnum jsnum
| SetFont string
| SetTextLayout string string
| FillText text_row

text \<open>\<^verbatim>\<open>Math.pow(x, 3)\<close>.\<close>

fun js_cube :: "jsnum \<Rightarrow> jsnum" where
  "js_cube (Fin a) = Fin (a ^ 3)"
| "js_cube a = a"

definition easeOutCubic :: "jsnum \<Rightarrow> jsnum" where
  "easeOutCubic t = js_sub (Fin 1) (js_cube (js_sub (Fin 1) t))"

definition vignette :: "reeler \<Rightarrow> draw_cmd list" where
  "vignette s =
     (let W = canvasWidth s; H = canvasHeight s; half = js_div H (Fin 2) in
      if js_gt (fadeGradientAlpha s) (Fin 0) then
        [FillRect (LinearGradient (Fin 0) (Fin 0) (Fin 0) half
                     [(Fin 0, Rgba (fadeGradientColor s) (fadeGradientAlpha s)),
                      (Fin 1, Rgba (fadeGradientColor s) (Fin 0))])
                  (Fin 0) (Fin 0) W half,
         FillRect (LinearGradient (Fin 0) half (Fin 0) H
                     [(Fin 0, Rgba (fadeGradientColor s) (Fin 0)),
                      (Fin 1, Rgba (fadeGradientColor s) (fadeGradientAlpha s))])
                  (Fin 0) half W half]
      else [])"

definition zoomProgress :: "browser \<Rightarrow> jsnum \<Rightarrow> reeler \<Rightarrow> jsnum" where
  "zoomProgress b ts s =
     (let now = (if truthy ts then ts else performanceNow b) in
      if mode s = Highlight then
        js_min (Fin 1)
          (js_div (js_sub now (to_number (highlightStart s))) (highlightAnimDuration s))
      else Fin 0)"

definition inCenter :: "reeler \<Rightarrow> jsnum \<Rightarrow> jsnum \<Rightarrow> bool" where
  "inCenter s centerY y =
     js_lt (js_abs (js_sub y centerY)) (js_mul (lineHeight s) (Fin (1 / 2)))"

text \<open>Scale and opacity of a row: in v3.8R10 the centred row is zoomed.\<close>

definition rowStyle :: "reeler \<Rightarrow> jsnum \<Rightarrow> jsnum \<Rightarrow> nat \<Rightarrow> jsnum \<Rightarrow> jsnum \<times> jsnum" where
  "rowStyle s zoomP centerY idx y =
     (if mode s = Highlight then
        (if inCenter s centerY y then
           (js_add (Fin 1) (js_mul (js_sub (zoomScale s) (Fin 1)) (easeOutCubic zoomP)), Fin 1)
         else (Fin 1, fadeOutAlpha s))
      else (Fin 1, Fin 1))"

definition rowY :: "reeler \<Rightarrow> jsnum \<Rightarrow> nat \<Rightarrow> jsnum" where
  "rowY s baseY i =
     js_sub (js_add baseY (js_mul (Fin (real i)) (lineHeight s)))
            (js_mul (of_len (items s)) (lineHeight s))"

definition culled :: "reeler \<Rightarrow> jsnum \<Rightarrow> bool" where
  "culled s y =
     (js_lt y (js_neg (lineHeight s)) \<or> js_gt y (js_add (canvasHeight s) (lineHeight s)))"

definition paletteColour :: "reeler \<Rightarrow> nat \<Rightarrow> string option" where
  "paletteColour s idx =
     (if colors s = [] then None else Some (colors s ! (idx mod length (colors s))))"

definition textRow :: "reeler \<Rightarrow> jsnum \<Rightarrow> jsnum \<Rightarrow> jsnum \<Rightarrow> nat \<Rightarrow> text_row option" where
  "textRow s zoomP centerY baseY i =
     (let idx = i mod length (items s);
          y = rowY s baseY i
      in if culled s y then None
         else
           (let st = rowStyle s zoomP centerY idx y in
            Some \<lparr> row_idx = idx,
                   row_x = js_div (canvasWidth s) (Fin 2),
                   row_y = y,
                   row_scale = fst st,
                   row_alpha = snd st,
                   row_fill = paletteColour s idx,
                   row_text = items s ! idx \<rparr>))"

definition textRows :: "browser \<Rightarrow> jsnum \<Rightarrow> jsnum \<Rightarrow> reeler \<Rightarrow> text_row list" where
  "textRows b ts offsetMod s =
     (let centerY = js_div (canvasHeight s) (Fin 2);
          baseY = js_sub centerY offsetMod;
          zoomP = zoomProgress b ts s
      in List.map_filter (textRow s zoomP centerY baseY) [0 ..< length (items s) * 3])"

definition draw :: "browser \<Rightarrow> jsnum \<Rightarrow> jsnum \<Rightarrow> reeler \<Rightarrow> draw_cmd list" where
  "draw b ts offsetMod s =
     [FillRect (Solid (bg s)) (Fin 0) (Fin 0) (canvasWidth s) (canvasHeight s)]
     @ vignette s
     @ [SetFont (fontString s), SetTextLayout ''middle'' ''center'']
     @ map FillText (textRows b ts offsetMod s)"

section \<open>The frame step (revision v3.8R10)\<close>

text \<open>
  A frame returns the next state, the drawing commands, and the arguments of the calls of
  the hook \<^verbatim>\<open>onStop\<close> made during the frame.
\<close>

record tick_result =
  tick_state :: reeler
  tick_drawn :: "draw_cmd list"
  tick_onStop :: "jsnum list"

definition spinStep :: "jsnum \<Rightarrow> reeler \<Rightarrow> reeler" where
  "spinStep ts s =
     (let s1 = (if spinStart s = None then s\<lparr>spinStart := Some ts\<rparr> else s);
          t = js_div (js_sub ts (to_number (spinStart s1))) (Fin 1000)
      in if js_le t (spinT s1) then
           s1\<lparr>offset := js_sub (js_mul (speed s1) t)
                                (js_mul (js_mul (js_mul (Fin (1 / 2)) (accel s1)) t) t)\<rparr>
         else s1\<lparr>offset := spinDist s1, mode := Pause, pauseStart := Some ts\<rparr>)"

definition advance :: "jsnum \<Rightarrow> jsnum \<Rightarrow> reeler \<Rightarrow> reeler" where
  "advance ts dt s =
     (case mode s of
        Loop \<Rightarrow> s\<lparr>offset := js_add (offset s) (js_mul (speed s) dt)\<rparr>
      | Spin \<Rightarrow> spinStep ts s
      | Pause \<Rightarrow>
          (if js_ge (js_sub ts (to_number (pauseStart s))) (highlightDelay s)
           then s\<lparr>mode := Highlight, highlightStart := Some ts\<rparr> else s)
      | Highlight \<Rightarrow> s
      | Idle \<Rightarrow> s)"

definition offsetModulo :: "reeler \<Rightarrow> jsnum" where
  "offsetModulo s =
     (let cycle = js_mul (of_len (items s)) (lineHeight s)
      in js_rem (js_add (js_rem (offset s) cycle) cycle) cycle)"

definition tick :: "browser \<Rightarrow> jsnum \<Rightarrow> reeler \<Rightarrow> tick_result" where
  "tick b ts s =
     (let s1 = (if prevTS s = None then s\<lparr>prevTS := Some ts\<rparr> else s);
          dt = js_div (js_sub ts (to_number (prevTS s1))) (Fin 1000);
          s2 = advance ts dt s1;
          cmds = draw b ts (offsetModulo s2) s2;
          s3 = s2\<lparr>prevTS := Some ts\<rparr>
      in \<lparr> tick_state = (if mode s3 \<noteq> Idle then requestAnimationFrame s3 else s3),
           tick_drawn = cmds,
           tick_onStop = [] \<rparr>)"

text \<open>A run of frames at the given timestamps, keeping the states only.\<close>

fun ticks :: "browser \<Rightarrow> jsnum list \<Rightarrow> reeler \<Rightarrow> reeler" where
  "ticks b [] s = s"
| "ticks b (ts # tss) s = ticks b tss (tick_state (tick b ts s))"

section \<open>Drawing in revision v3.8R9\<close>

text \<open>
  The previous revision draws the same frame, with two differences: it takes the remainder
  of the offset itself, and it zooms the centred row only when its item index is the
  target index.
\<close>

definition rowStyle_R9 :: "reeler \<Rightarrow> jsnum \<Rightarrow> jsnum \<Rightarrow> nat \<Rightarrow> jsnum \<Rightarrow> jsnum \<times> jsnum" where
  "rowStyle_R9 s zoomP centerY idx y =
     (if mode s = Highlight then
        (if inCenter s centerY y \<and> js_eq (Fin (real idx)) (targetIdx s) then
           (js_add (Fin 1) (js_mul (js_sub (zoomScale s) (Fin 1)) (easeOutCubic zoomP)), Fin 1)
         else (Fin 1, fadeOutAlpha s))
      else (Fin 1, Fin 1))"

definition textRow_R9 :: "reeler \<Rightarrow> jsnum \<Rightarrow> jsnum \<Rightarrow> jsnum \<Rightarrow> nat \<Rightarrow> text_row option" where
  "textRow_R9 s zoomP centerY baseY i =
     (let idx = i mod length (items s);
          y = rowY s baseY i
      in if culled s y then None
         else
           (let st = rowStyle_R9 s zoomP centerY idx y in
            Some \<lparr> row_idx = idx,
                   row_x = js_div (canvasWidth s) (Fin 2),
                   row_y = y,
                   row_scale = fst st,
                   row_alpha = snd st,
                   row_fill = paletteColour s idx,
                   row_text = items s ! idx \<rparr>))"

definition textRows_R9 :: "browser \<Rightarrow> jsnum \<Rightarrow> reeler \<Rightarrow> text_row list" where
  "textRows_R9 b ts s =
     (let centerY = js_div (canvasHeight s) (Fin 2);
          offsetMod = js_rem (offset s) (js_mul (lineHeight s) (of_len (items s)));
          baseY = js_sub centerY offsetMod;
          zoomP = zoomProgress b ts s
      in List.map_filter (textRow_R9 s zoomP centerY baseY) [0 ..< length (items s) * 3])"

definition draw_R9 :: "browser \<Rightarrow> jsnum \<Rightarrow> reeler \<Rightarrow> draw_cmd list" where
  "draw_R9 b ts s =
     [FillRect (Solid (bg s)) (Fin 0) (Fin 0) (canvasWidth s) (canvasHeight s)]
     @ vignette s
     @ [SetFont (fontString s), SetTextLayout ''middle'' ''center'']
     @ map FillText (textRows_R9 b ts s)"

section \<open>The frame step in revision v3.3\<close>

text \<open>
  The oldest revision has no pause: when the spin time is over, the frame step clamps the
  offset, enters highlight and calls the hook with the target index. Its fields carry the
  revision in their names; its drawing is not part of this model.
\<close>

record reeler_v33 =
  items_v33 :: "string list"
  speed_v33 :: jsnum
  lineHeight_v33 :: jsnum
  mode_v33 :: mode
  startTime_v33 :: "jsnum option"
  offset_v33 :: jsnum
  targetIdx_v33 :: jsnum
  loopRAF_v33 :: bool
  rafRequests_v33 :: nat
  spinTotalDist_v33 :: jsnum
  v0_v33 :: jsnum
  a_v33 :: jsnum
  spinDurSec_v33 :: jsnum
  spinStart_v33 :: "jsnum option"
  highlightStart_v33 :: "jsnum option"

text \<open>\<^verbatim>\<open>!x\<close> on a nullable number.\<close>

definition falsy :: "jsnum option \<Rightarrow> bool" where
  "falsy v = (case v of None \<Rightarrow> True | Some a \<Rightarrow> \<not> truthy a)"

definition spinStep_v33 :: "jsnum \<Rightarrow> reeler_v33 \<Rightarrow> reeler_v33 \<times> jsnum list" where
  "spinStep_v33 ts s =
     (let s1 = (if falsy (spinStart_v33 s) then s\<lparr>spinStart_v33 := Some ts\<rparr> else s);
          tSec = js_div (js_sub ts (to_number (spinStart_v33 s1))) (Fin 1000)
      in if js_lt tSec (spinDurSec_v33 s1) then
           (s1\<lparr>offset_v33 :=
                 js_sub (js_mul (v0_v33 s1) tSec)
                        (js_mul (js_mul (js_mul (Fin (1 / 2)) (a_v33 s1)) tSec) tSec)\<rparr>, [])
         else
           (s1\<lparr>offset_v33 := spinTotalDist_v33 s1, mode_v33 := Highlight,
                highlightStart_v33 := Some ts\<rparr>,
            [targetIdx_v33 s1]))"

definition tick_v33 :: "jsnum \<Rightarrow> reeler_v33 \<Rightarrow> reeler_v33 \<times> jsnum list" where
  "tick_v33 ts s =
     (let s1 = (if falsy (startTime_v33 s) then s\<lparr>startTime_v33 := Some ts\<rparr> else s);
          dt = js_sub ts (to_number (startTime_v33 s1));
          r = (if mode_v33 s1 = Loop then
                 (let s2 = s1\<lparr>offset_v33 :=
                                js_add (offset_v33 s1)
                                       (js_div (js_mul (speed_v33 s1) dt) (Fin 1000))\<rparr>
                  in (s2\<lparr>offset_v33 :=
                           js_rem (offset_v33 s2)
                                  (js_mul (lineHeight_v33 s2) (of_len (items_v33 s2)))\<rparr>, []))
               else if mode_v33 s1 = Spin then spinStep_v33 ts s1
               else (s1, []));
          s3 = (fst r)\<lparr>startTime_v33 := Some ts\<rparr>
      in (if mode_v33 s3 \<noteq> Idle \<and> loopRAF_v33 s3
          then s3\<lparr>loopRAF_v33 := True, rafRequests_v33 := Suc (rafRequests_v33 s3)\<rparr>
          else s3,
          snd r))"

section \<open>A sample reel\<close>

text \<open>
  The reel of the specification's scenario: five items, default options, a measured font
  height of 120 and the default line spacing 1.25, hence a line height of 150, on an
  800 by 600 canvas.
\<close>

definition sampleBrowser :: browser where
  "sampleBrowser =
     \<lparr> innerWidth = Fin 800, innerHeight = Fin 600,
       measureText = (\<lambda>f. (Fin 90, Fin 30)),
       performanceNow = Fin 0, mathRandom = Fin 0 \<rparr>"

definition noOpts :: opts where
  "noOpts =
     \<lparr> opt_font = None, opt_colors = None, opt_bg = None, opt_speed = None,
       opt_fontWeight = None, opt_fadeOutAlpha = None, opt_zoomScale = None,
       opt_lineSpacing = None, opt_highlightDelay = None,
       opt_highlightAnimDuration = None, opt_fadeGradientColor = None,
       opt_fadeGradientAlpha = None, opt_fadeGradientPower = None \<rparr>"

definition sampleReel :: reeler where
  "sampleReel = constructor sampleBrowser [''A'', ''B'', ''C'', ''D'', ''E''] noOpts"

definition pairReel :: reeler where
  "pairReel = constructor sampleBrowser [''A'', ''B''] noOpts"

definition rotations :: "jsnum \<Rightarrow> spin_opts" where
  "rotations r = \<lparr> opt_rotations = Some r \<rparr>"

definition noSpinOpts :: spin_opts where
  "noSpinOpts = \<lparr> opt_rotations = None \<rparr>"

text \<open>
  A reel of two items after a spin of half a rotation to item 0 and the frames at 0, 201
  and 601 ms: the spin distance is one line height, so the reel rests in highlight with
  item 1 in the centre.
\<close>

definition halfTurnReel :: reeler where
  "halfTurnReel =
     ticks sampleBrowser [Fin 0, Fin 201, Fin 601]
       (spin sampleBrowser (Some (Fin 0)) (rotations (Fin (1 / 2))) pairReel)"


section \<open>Double-precision numbers\<close>

text \<open>
  A JavaScript number is an IEEE 754 binary64 value: a finite value, the negative zero,
  an infinity or NaN. A finite value is carried as the real number it denotes; the
  positive zero is \<open>Dbl 0\<close>. Every arithmetic operation rounds its exact result to the
  nearest representable value, ties to the even significand.
\<close>

datatype double = Dbl real | MinusZero | PlusInf | MinusInf | NotANumber

text \<open>The power of two with an integer exponent.\<close>

definition pow2 :: "int \<Rightarrow> real" where
  "pow2 e = (if 0 \<le> e then 2 ^ nat e else 1 / 2 ^ nat (- e))"

text \<open>The number of binary digits of a natural number.\<close>

fun bits :: "nat \<Rightarrow> nat" where
  "bits n = (if n = 0 then 0 else Suc (bits (n div 2)))"

declare bits.simps [simp del]

text \<open>
  The binary exponent of a positive real \<open>a\<close>: the integer \<open>e\<close> with
  \<open>2\<^sup>e \<le> a < 2\<^sup>e\<^sup>+\<^sup>1\<close>.
\<close>

definition expo :: "real \<Rightarrow> int" where
  "expo a = (if 1 \<le> a then int (bits (nat \<lfloor>a\<rfloor>)) - 1
             else - int (bits (nat (\<lceil>1 / a\<rceil> - 1))))"

text \<open>Rounding a real to the nearest integer, ties to even.\<close>

definition round_even :: "real \<Rightarrow> int" where
  "round_even q =
     (let f = \<lfloor>q\<rfloor>; d = q - of_int f
      in if d < 1 / 2 then f else if 1 / 2 < d then f + 1
         else if even f then f else f + 1)"

text \<open>
  Rounding a real to binary64. The significand has 53 bits, so the spacing of the
  representable values around a number of exponent \<open>e\<close> is \<open>2\<^sup>e\<^sup>-\<^sup>5\<^sup>2\<close>; below the
  smallest normal exponent -1022 the spacing stays \<open>2\<^sup>-\<^sup>1\<^sup>0\<^sup>7\<^sup>4\<close> (subnormal values). A
  result that rounds to \<open>2\<^sup>1\<^sup>0\<^sup>2\<^sup>4\<close> or more overflows to an infinity, and one that rounds
  to zero keeps the sign of the exact value.
\<close>

definition fl :: "real \<Rightarrow> double" where
  "fl x =
     (if x = 0 then Dbl 0
      else
        (let a = \<bar>x\<bar>;
             e = max (expo a) (- 1022);
             u = pow2 (e - 52);
             r = of_int (round_even (a / u)) * u
         in if pow2 1024 \<le> r then (if 0 < x then PlusInf else MinusInf)
            else if r = 0 then (if 0 < x then Dbl 0 else MinusZero)
            else Dbl (if 0 < x then r else - r)))"

text \<open>
  Accuracy: \<open>near k x y\<close> says that \<open>y\<close> differs from \<open>x\<close> by at most \<open>k\<close> times
  \<open>2\<^sup>-\<^sup>5\<^sup>3\<close> of \<open>x\<close>, the largest relative error of one rounding.
\<close>

definition near :: "real \<Rightarrow> real \<Rightarrow> real \<Rightarrow> bool" where
  "near k x y = ((1 - k / 2 ^ 53) * x \<le> y \<and> y \<le> (1 + k / 2 ^ 53) * x)"

text \<open>Sign, zero test, infinity test and the real value of a finite number.\<close>

fun negative :: "double \<Rightarrow> bool" where
  "negative (Dbl a) = (a < 0)"
| "negative MinusZero = True"
| "negative MinusInf = True"
| "negative PlusInf = False"
| "negative NotANumber = False"

fun is_zero :: "double \<Rightarrow> bool" where
  "is_zero (Dbl a) = (a = 0)"
| "is_zero MinusZero = True"
| "is_zero x = False"

fun is_inf :: "double \<Rightarrow> bool" where
  "is_inf PlusInf = True"
| "is_inf MinusInf = True"
| "is_inf x = False"

fun val :: "double \<Rightarrow> real" where
  "val (Dbl a) = a"
| "val x = 0"

definition signed_zero :: "bool \<Rightarrow> double" where
  "signed_zero neg = (if neg then MinusZero else Dbl 0)"

definition signed_inf :: "bool \<Rightarrow> double" where
  "signed_inf neg = (if neg then MinusInf else PlusInf)"

text \<open>
  The operators \<^verbatim>\<open>-x\<close>, \<^verbatim>\<open>+\<close>, \<^verbatim>\<open>-\<close>, \<^verbatim>\<open>*\<close> and \<^verbatim>\<open>/\<close>. An exact sum
  of zero is +0 unless both summands are -0.
\<close>

fun d_neg :: "double \<Rightarrow> double" where
  "d_neg (Dbl a) = (if a = 0 then MinusZero else Dbl (- a))"
| "d_neg MinusZero = Dbl 0"
| "d_neg PlusInf = MinusInf"
| "d_neg MinusInf = PlusInf"
| "d_neg NotANumber = NotANumber"

definition d_add :: "double \<Rightarrow> double \<Rightarrow> double" where
  "d_add x y =
     (if x = NotANumber \<or> y = NotANumber then NotANumber
      else if is_inf x \<and> is_inf y then (if x = y then x else NotANumber)
      else if is_inf x then x
      else if is_inf y then y
      else if is_zero x \<and> is_zero y then signed_zero (negative x \<and> negative y)
      else if val x + val y = 0 then Dbl 0
      else fl (val x + val y))"

definition d_sub :: "double \<Rightarrow> double \<Rightarrow> double" where
  "d_sub x y = d_add x (d_neg y)"

definition d_mul :: "double \<Rightarrow> double \<Rightarrow> double" where
  "d_mul x y =
     (if x = NotANumber \<or> y = NotANumber then NotANumber
      else if (is_inf x \<and> is_zero y) \<or> (is_zero x \<and> is_inf y) then NotANumber
      else if is_inf x \<or> is_inf y then signed_inf (negative x \<noteq> negative y)
      else if is_zero x \<or> is_zero y then signed_zero (negative x \<noteq> negative y)
      else fl (val x * val y))"

definition d_div :: "double \<Rightarrow> double \<Rightarrow> double" where
  "d_div x y =
     (if x = NotANumber \<or> y = NotANumber then NotANumber
      else if (is_inf x \<and> is_inf y) \<or> (is_zero x \<and> is_zero y) then NotANumber
      else if is_inf x \<or> is_zero y then signed_inf (negative x \<noteq> negative y)
      else if is_inf y \<or> is_zero x then signed_zero (negative x \<noteq> negative y)
      else fl (val x / val y))"

text \<open>
  The operator \<^verbatim>\<open>%\<close>: the remainder has the sign of the dividend and is exact.
\<close>

definition trunc64 :: "real \<Rightarrow> int" where
  "trunc64 x = (if 0 \<le> x then \<lfloor>x\<rfloor> else \<lceil>x\<rceil>)"

definition d_rem :: "double \<Rightarrow> double \<Rightarrow> double" where
  "d_rem x y =
     (if x = NotANumber \<or> y = NotANumber then NotANumber
      else if is_inf x \<or> is_zero y then NotANumber
      else if is_inf y \<or> is_zero x then x
      else
        (let r = val x - val y * of_int (trunc64 (val x / val y))
         in if r = 0 then signed_zero (negative x) else Dbl r))"

text \<open>The comparisons \<^verbatim>\<open><=\<close> and \<^verbatim>\<open>>=\<close>; the two zeros compare equal.\<close>

definition d_le :: "double \<Rightarrow> double \<Rightarrow> bool" where
  "d_le x y =
     (if x = NotANumber \<or> y = NotANumber then False
      else if x = MinusInf \<or> y = PlusInf then True
      else if x = PlusInf \<or> y = MinusInf then False
      else val x \<le> val y)"

definition d_ge :: "double \<Rightarrow> double \<Rightarrow> bool" where
  "d_ge x y = d_le y x"

text \<open>\<^verbatim>\<open>Math.floor\<close>.\<close>

fun d_floor :: "double \<Rightarrow> double" where
  "d_floor (Dbl a) = (if \<lfloor>a\<rfloor> = 0 \<and> a < 0 then MinusZero else Dbl (of_int \<lfloor>a\<rfloor>))"
| "d_floor x = x"

text \<open>Conversion of a nullable number to a number, and the length of a list.\<close>

definition to_number64 :: "double option \<Rightarrow> double" where
  "to_number64 v = (case v of None \<Rightarrow> Dbl 0 | Some a \<Rightarrow> a)"

definition of_len64 :: "'a list \<Rightarrow> double" where
  "of_len64 xs = Dbl (real (length xs))"


section \<open>The engine in double precision\<close>

text \<open>
  The fields of a \<^verbatim>\<open>Reeler\<close> that \<^verbatim>\<open>spin\<close> and the state changes of
  \<^verbatim>\<open>_tick\<close> read and write; the fields that only the drawing reads are left out.
\<close>

record engine =
  e_items :: "string list"
  e_speed :: double
  e_highlightDelay :: double
  e_lineHeight :: double
  e_mode :: mode
  e_offset :: double
  e_targetIdx :: double
  e_spinStart :: "double option"
  e_spinT :: double
  e_accel :: double
  e_spinDist :: double
  e_pauseStart :: "double option"
  e_highlightStart :: "double option"
  e_prevTS :: "double option"
  e_raf :: bool
  e_rafRequests :: nat

text \<open>
  \<^verbatim>\<open>spin(targetIndex, {rotations})\<close>; the first argument is the next value of
  \<^verbatim>\<open>Math.random()\<close>.
\<close>

definition resolveTarget64 :: "double \<Rightarrow> double option \<Rightarrow> engine \<Rightarrow> double" where
  "resolveTarget64 random targetIndex s =
     (case targetIndex of
        None \<Rightarrow> d_floor (d_mul random (of_len64 (e_items s)))
      | Some k \<Rightarrow>
          d_rem (d_add (d_rem k (of_len64 (e_items s))) (of_len64 (e_items s)))
                (of_len64 (e_items s)))"

definition spin64 :: "double \<Rightarrow> double option \<Rightarrow> double option \<Rightarrow> engine \<Rightarrow> engine" where
  "spin64 random targetIndex rots s =
     (let rotations = (case rots of None \<Rightarrow> Dbl 6 | Some r \<Rightarrow> r);
          s1 = s\<lparr>e_targetIdx := resolveTarget64 random targetIndex s\<rparr>;
          cycle = d_mul (of_len64 (e_items s1)) (e_lineHeight s1);
          s2 = s1\<lparr>e_spinDist := d_add (d_mul rotations cycle)
                                       (d_mul (e_targetIdx s1) (e_lineHeight s1))\<rparr>;
          v0 = e_speed s2;
          s3 = s2\<lparr>e_accel := d_div (d_mul v0 v0) (d_mul (Dbl 2) (e_spinDist s2))\<rparr>;
          s4 = s3\<lparr>e_spinT := d_div v0 (e_accel s3)\<rparr>
      in s4\<lparr>e_spinStart := None, e_mode := Spin\<rparr>)"

text \<open>
  The spin-elapsed time \<^verbatim>\<open>(ts - this._spinStart) / 1000\<close> and the offset
  \<^verbatim>\<open>this.speed * t - 0.5 * this._accel * t * t\<close>, evaluated from left to right.
\<close>

definition elapsed64 :: "double \<Rightarrow> double \<Rightarrow> double" where
  "elapsed64 ts start = d_div (d_sub ts start) (Dbl 1000)"

definition spinOffset64 :: "double \<Rightarrow> double \<Rightarrow> double \<Rightarrow> double" where
  "spinOffset64 v a t =
     d_sub (d_mul v t) (d_mul (d_mul (d_mul (Dbl (1 / 2)) a) t) t)"

text \<open>The state changes of one frame \<^verbatim>\<open>_tick(ts)\<close>, without the drawing.\<close>

definition spinStep64 :: "double \<Rightarrow> engine \<Rightarrow> engine" where
  "spinStep64 ts s =
     (let s1 = (if e_spinStart s = None then s\<lparr>e_spinStart := Some ts\<rparr> else s);
          t = elapsed64 ts (to_number64 (e_spinStart s1))
      in if d_le t (e_spinT s1) then
           s1\<lparr>e_offset := spinOffset64 (e_speed s1) (e_accel s1) t\<rparr>
         else s1\<lparr>e_offset := e_spinDist s1, e_mode := Pause, e_pauseStart := Some ts\<rparr>)"

definition advance64 :: "double \<Rightarrow> double \<Rightarrow> engine \<Rightarrow> engine" where
  "advance64 ts dt s =
     (case e_mode s of
        Loop \<Rightarrow> s\<lparr>e_offset := d_add (e_offset s) (d_mul (e_speed s) dt)\<rparr>
      | Spin \<Rightarrow> spinStep64 ts s
      | Pause \<Rightarrow>
          (if d_ge (d_sub ts (to_number64 (e_pauseStart s))) (e_highlightDelay s)
           then s\<lparr>e_mode := Highlight, e_highlightStart := Some ts\<rparr> else s)
      | Highlight \<Rightarrow> s
      | Idle \<Rightarrow> s)"

definition tick64 :: "double \<Rightarrow> engine \<Rightarrow> engine" where
  "tick64 ts s =
     (let s1 = (if e_prevTS s = None then s\<lparr>e_prevTS := Some ts\<rparr> else s);
          dt = elapsed64 ts (to_number64 (e_prevTS s1));
          s2 = advance64 ts dt s1;
          s3 = s2\<lparr>e_prevTS := Some ts\<rparr>
      in if e_mode s3 \<noteq> Idle
         then s3\<lparr>e_raf := True, e_rafRequests := Suc (e_rafRequests s3)\<rparr> else s3)"

fun ticks64 :: "double list \<Rightarrow> engine \<Rightarrow> engine" where
  "ticks64 [] s = s"
| "ticks64 (ts # tss) s = ticks64 tss (tick64 ts s)"

text \<open>The sample reel: five items, speed 1500, line height 150.\<close>

definition sampleEngine :: engine where
  "sampleEngine =
     \<lparr> e_items = [''A'', ''B'', ''C'', ''D'', ''E''],
       e_speed = Dbl 1500,
       e_highlightDelay = Dbl 400,
       e_lineHeight = Dbl 150,
       e_mode = Loop,
       e_offset = Dbl 0,
       e_targetIdx = Dbl 0,
       e_spinStart = None,
       e_spinT = Dbl 0,
       e_accel = Dbl 0,
       e_spinDist = Dbl 0,
       e_pauseStart = None,
       e_highlightStart = None,
       e_prevTS = None,
       e_raf = True,
       e_rafRequests = 1 \<rparr>"


section \<open>Facts about the sample reel\<close>

lemma sampleReel_eq:
  "sampleReel =
     \<lparr> items = [''A'', ''B'', ''C'', ''D'', ''E''],
       font = ''120px \"Noto Sans JP\", sans-serif'',
       colors = [''#41ACF0'', ''#D793FF''],
       bg = ''#05193C'',
       speed = Fin 1500,
       fontWeight = None,
       fadeOutAlpha = Fin (2 / 10),
       zoomScale = Fin (18 / 10),
       lineSpacing = Fin (125 / 100),
       highlightDelay = Fin 400,
       highlightAnimDuration = Fin 1200,
       fadeGradientColor = ''#05193C'',
       fadeGradientAlpha = Fin (6 / 10),
       fadeGradientPower = Fin 1,
       mode = Loop,
       offset = Fin 0,
       targetIdx = Fin 0,
       spinStart = None,
       spinT = Fin 0,
       accel = Fin 0,
       spinDist = Fin 0,
       pauseStart = None,
       highlightStart = None,
       prevTS = None,
       canvasWidth = Fin 800,
       canvasHeight = Fin 600,
       fontHeight = Fin 120,
       lineHeight = Fin 150,
       raf = True,
       rafRequests = 1 \<rparr>"
  by (simp add: sampleReel_def constructor_def resize_def startLoop_def
        requestAnimationFrame_def sampleBrowser_def noOpts_def Let_def num_or_def
        num_nullish_def str_or_def fontString_def)

lemma sampleReel_fields:
  "items sampleReel = [''A'', ''B'', ''C'', ''D'', ''E'']"
  "speed sampleReel = Fin 1500"
  "lineHeight sampleReel = Fin 150"
  "offset sampleReel = Fin 0"
  "mode sampleReel = Loop"
  "prevTS sampleReel = None"
  by (simp_all add: sampleReel_eq)

section \<open>Item lookup and target normalisation\<close>

lemma indexOf_None: "indexOf xs l = None \<longleftrightarrow> l \<notin> set xs"
  by (induction xs) auto

lemma indexOf_Some:
  "indexOf xs l = Some i \<Longrightarrow> i < length xs \<and> xs ! i = l \<and> (\<forall>j<i. xs ! j \<noteq> l)"
proof (induction xs arbitrary: i)
  case Nil
  then show ?case by simp
next
  case (Cons x xs)
  show ?case
  proof (cases "x = l")
    case True
    with Cons.prems show ?thesis by simp
  next
    case False
    with Cons.prems obtain k where k: "indexOf xs l = Some k" "i = Suc k"
      by auto
    from Cons.IH [OF k(1)] have ih: "k < length xs" "xs ! k = l" "\<forall>j<k. xs ! j \<noteq> l"
      by simp_all
    show ?thesis
    proof (intro conjI allI impI)
      show "i < length (x # xs)" using k ih by simp
      show "(x # xs) ! i = l" using k ih by simp
      fix j assume "j < i"
      then show "(x # xs) ! j \<noteq> l"
        using False k ih by (cases j) auto
    qed
  qed
qed

text \<open>
  Claim C4. For every label and every options argument: if the label does not occur in the
  item list, \<^verbatim>\<open>spinTo\<close> returns false and leaves the whole state as it is; if it
  occurs, \<^verbatim>\<open>spinTo\<close> returns true and leaves the state that \<^verbatim>\<open>spin\<close> produces
  for the first index holding the label.
\<close>

theorem spinTo_spec:
  "(label \<notin> set (items s) \<longrightarrow> spinTo b label so s = (False, s)) \<and>
   (label \<in> set (items s) \<longrightarrow>
      (\<exists>i. indexOf (items s) label = Some i \<and> i < length (items s) \<and>
           items s ! i = label \<and> (\<forall>j<i. items s ! j \<noteq> label) \<and>
           spinTo b label so s = (True, spin b (Some (Fin (real i))) so s)))"
proof (intro conjI impI)
  assume "label \<notin> set (items s)"
  then have "indexOf (items s) label = None" by (simp add: indexOf_None)
  then show "spinTo b label so s = (False, s)" by (simp add: spinTo_def)
next
  assume "label \<in> set (items s)"
  then have "indexOf (items s) label \<noteq> None" by (simp add: indexOf_None)
  then obtain i where i: "indexOf (items s) label = Some i" by auto
  from indexOf_Some [OF i] i
  show "\<exists>i. indexOf (items s) label = Some i \<and> i < length (items s) \<and>
           items s ! i = label \<and> (\<forall>j<i. items s ! j \<noteq> label) \<and>
           spinTo b label so s = (True, spin b (Some (Fin (real i))) so s)"
    by (auto simp: spinTo_def)
qed

theorem spinTo_spec_witness:
  "spinTo sampleBrowser ''Z'' noSpinOpts sampleReel = (False, sampleReel) \<and>
   spinTo sampleBrowser ''C'' noSpinOpts sampleReel
     = (True, spin sampleBrowser (Some (Fin 2)) noSpinOpts sampleReel)"
  using spinTo_spec [of "''Z''" sampleReel sampleBrowser noSpinOpts]
    spinTo_spec [of "''C''" sampleReel sampleBrowser noSpinOpts]
  by (simp add: sampleReel_fields)

lemma trunc_nonneg: "0 \<le> x \<Longrightarrow> trunc x = \<lfloor>x\<rfloor>"
  by (simp add: trunc_def)

lemma js_rem_int:
  assumes "0 < n"
  shows "\<exists>r. js_rem (Fin (of_int k)) (Fin (of_int n)) = Fin (of_int r) \<and>
             - n < r \<and> r < n \<and> r mod n = k mod n"
proof (cases "0 \<le> k")
  case True
  then have "0 \<le> (of_int k :: real) / of_int n" using assms by simp
  then have "trunc (of_int k / of_int n) = k div n"
    by (simp add: trunc_def floor_divide_of_int_eq)
  then have "js_rem (Fin (of_int k)) (Fin (of_int n)) = Fin (of_int (k - n * (k div n)))"
    using assms by simp
  moreover have "k - n * (k div n) = k mod n"
    by (simp add: minus_mult_div_eq_mod)
  moreover have "- n < k mod n"
    using assms pos_mod_sign [of n k] by linarith
  ultimately show ?thesis using assms
    by (intro exI [of _ "k mod n"]) simp
next
  case False
  then have neg: "(of_int k :: real) / of_int n < 0" using assms
    by (simp add: divide_neg_pos)
  have "\<lceil>(of_int k :: real) / of_int n\<rceil> = - \<lfloor>(of_int (- k) :: real) / of_int n\<rfloor>"
    by (simp add: ceiling_def)
  also have "\<dots> = - ((- k) div n)"
    by (simp only: floor_divide_of_int_eq)
  finally have "trunc (of_int k / of_int n) = - ((- k) div n)"
    using neg by (simp add: trunc_def)
  then have eq: "js_rem (Fin (of_int k)) (Fin (of_int n)) = Fin (of_int (k + n * ((- k) div n)))"
    using assms by simp
  have r: "k + n * ((- k) div n) = - ((- k) mod n)"
    by (simp add: algebra_simps flip: minus_mult_div_eq_mod)
  have b1: "0 \<le> (- k) mod n" "(- k) mod n < n" using assms by simp_all
  have "(- ((- k) mod n)) mod n = k mod n"
    by (metis mod_minus_eq minus_minus)
  with eq r b1 show ?thesis
    by (intro exI [of _ "- ((- k) mod n)"]) simp
qed

lemma double_rem_int:
  assumes "0 < n"
  shows "js_rem (js_add (js_rem (Fin (of_int k)) (Fin (of_int n))) (Fin (of_int n)))
                (Fin (of_int n)) = Fin (of_int (k mod n))"
proof -
  from js_rem_int [OF assms, of k] obtain r where
    r: "js_rem (Fin (of_int k)) (Fin (of_int n)) = Fin (of_int r)"
       "- n < r" "r < n" "r mod n = k mod n"
    by blast
  have nonneg: "0 \<le> (of_int (r + n) :: real) / of_int n"
    using r assms by simp
  have "trunc (of_int (r + n) / of_int n) = (r + n) div n"
    using nonneg by (simp only: trunc_nonneg floor_divide_of_int_eq)
  then have "js_rem (Fin (of_int (r + n))) (Fin (of_int n))
               = Fin (of_int ((r + n) - n * ((r + n) div n)))"
    using assms by simp
  also have "(r + n) - n * ((r + n) div n) = (r + n) mod n"
    by (simp add: minus_mult_div_eq_mod)
  also have "(r + n) mod n = k mod n"
    using r by simp
  finally show ?thesis using r by simp
qed

text \<open>
  Claim C6. For every integer target index, negative and out-of-range ones included, and
  every non-empty item list, \<^verbatim>\<open>spin\<close> resolves the target index to the true modulo
  of the index by the item count, which lies between 0 and the item count.
\<close>

theorem spin_normalises_target:
  assumes "items s \<noteq> []"
  shows "\<exists>m. targetIdx (spin b (Some (Fin (of_int k))) so s) = Fin (of_int m) \<and>
             0 \<le> m \<and> m < int (length (items s)) \<and> m = k mod int (length (items s))"
proof -
  let ?n = "int (length (items s))"
  have n: "0 < ?n" using assms by simp
  have "targetIdx (spin b (Some (Fin (of_int k))) so s)
          = js_rem (js_add (js_rem (Fin (of_int k)) (Fin (of_int ?n))) (Fin (of_int ?n)))
                   (Fin (of_int ?n))"
    by (simp add: spin_def resolveTarget_def of_len_def Let_def)
  also have "\<dots> = Fin (of_int (k mod ?n))"
    by (rule double_rem_int [OF n])
  finally show ?thesis using n by (intro exI [of _ "k mod ?n"]) simp
qed

theorem spin_normalises_target_witness:
  "items sampleReel \<noteq> [] \<and>
   targetIdx (spin sampleBrowser (Some (Fin (- 1))) noSpinOpts sampleReel) = Fin 4"
  using spin_normalises_target [of sampleReel sampleBrowser "- 1" noSpinOpts]
  by (simp add: sampleReel_fields)

section \<open>Spin kinematics\<close>

lemma spin_fields:
  "targetIdx (spin b t so s) = resolveTarget b t s"
  "spinDist (spin b t so s) =
     js_add (js_mul (num_nullish (opt_rotations so) (Fin 6))
                    (js_mul (of_len (items s)) (lineHeight s)))
            (js_mul (resolveTarget b t s) (lineHeight s))"
  "accel (spin b t so s) =
     js_div (js_mul (speed s) (speed s)) (js_mul (Fin 2) (spinDist (spin b t so s)))"
  "spinT (spin b t so s) = js_div (speed s) (accel (spin b t so s))"
  "mode (spin b t so s) = Spin"
  "spinStart (spin b t so s) = None"
  "speed (spin b t so s) = speed s"
  "items (spin b t so s) = items s"
  "lineHeight (spin b t so s) = lineHeight s"
  "offset (spin b t so s) = offset s"
  by (simp_all add: spin_def Let_def)

lemma tick_state_eq:
  "tick_state (tick b ts s) =
     (let s1 = (if prevTS s = None then s\<lparr>prevTS := Some ts\<rparr> else s);
          s3 = (advance ts (js_div (js_sub ts (to_number (prevTS s1))) (Fin 1000)) s1)
                 \<lparr>prevTS := Some ts\<rparr>
      in if mode s3 \<noteq> Idle then requestAnimationFrame s3 else s3)"
  by (simp add: tick_def Let_def)

lemma spinStep_mode: "mode s = Spin \<Longrightarrow> mode (spinStep ts s) \<noteq> Idle"
  by (simp add: spinStep_def Let_def)

lemma spinStep_params:
  "speed (spinStep ts s) = speed s"
  "accel (spinStep ts s) = accel s"
  "spinT (spinStep ts s) = spinT s"
  "spinDist (spinStep ts s) = spinDist s"
  by (simp_all add: spinStep_def Let_def)

lemma tick_in_spin:
  assumes "mode s = Spin"
  shows "offset (tick_state (tick b ts s)) = offset (spinStep ts s)"
    and "mode (tick_state (tick b ts s)) = mode (spinStep ts s)"
    and "spinStart (tick_state (tick b ts s)) = spinStart (spinStep ts s)"
    and "speed (tick_state (tick b ts s)) = speed s"
    and "accel (tick_state (tick b ts s)) = accel s"
    and "spinT (tick_state (tick b ts s)) = spinT s"
    and "spinDist (tick_state (tick b ts s)) = spinDist s"
  using assms spinStep_mode [OF assms, of ts]
  by (simp_all add: tick_state_eq advance_def Let_def requestAnimationFrame_def
        spinStep_def)


lemma spinStep_first:
  assumes "spinStart s = None" "speed s = Fin v" "accel s = Fin a" "spinT s = Fin T" "0 \<le> T"
  shows "spinStep (Fin t0) s = s\<lparr>spinStart := Some (Fin t0), offset := Fin 0\<rparr>"
  using assms by (simp add: spinStep_def Let_def to_number_def js_sub_def)

lemma spinStep_running:
  assumes "spinStart s = Some (Fin t0)" "speed s = Fin v" "accel s = Fin a"
    and "spinT s = Fin T" "(t - t0) / 1000 \<le> T"
  shows "spinStep (Fin t) s =
           s\<lparr>offset := Fin (v * ((t - t0) / 1000)
                             - 1 / 2 * a * ((t - t0) / 1000) * ((t - t0) / 1000))\<rparr>"
  using assms by (simp add: spinStep_def Let_def to_number_def js_sub_def)

lemma spinStep_over:
  assumes "spinStart s = Some (Fin t0)" "spinT s = Fin T" "T < (t - t0) / 1000"
  shows "spinStep (Fin t) s = s\<lparr>offset := spinDist s, mode := Pause, pauseStart := Some (Fin t)\<rparr>"
  using assms by (simp add: spinStep_def Let_def to_number_def js_sub_def)

lemma spin_physics:
  assumes "speed s = Fin v0" "0 < v0" "spinDist (spin b target so s) = Fin D" "0 < D"
  shows "accel (spin b target so s) = Fin (v0\<^sup>2 / (2 * D))"
    and "spinT (spin b target so s) = Fin (v0 / (v0\<^sup>2 / (2 * D)))"
proof -
  show a: "accel (spin b target so s) = Fin (v0\<^sup>2 / (2 * D))"
    using assms by (simp add: spin_fields(3) power2_eq_square)
  show "spinT (spin b target so s) = Fin (v0 / (v0\<^sup>2 / (2 * D)))"
    using assms by (simp add: spin_fields(4) a)
qed

lemma stop_time: "0 < v0 \<Longrightarrow> 0 < D \<Longrightarrow> v0 / (v0\<^sup>2 / (2 * D)) = 2 * D / (v0::real)"
  by (simp add: power2_eq_square)

text \<open>
  Over the real numbers the offset formula reaches the spin distance at the duration
  and never decreases before it.
\<close>

lemma stop_distance:
  assumes "0 < v0" "0 < D"
  shows "v0 * (2 * D / v0) - 1 / 2 * (v0\<^sup>2 / (2 * D)) * (2 * D / v0) * (2 * D / v0) = (D::real)"
  using assms by (simp add: power2_eq_square field_simps)

text \<open>The state after the first frame of a spin.\<close>

lemma first_spin_frame:
  fixes b0 :: browser and t0 :: real
  assumes "speed s = Fin v0" "0 < v0" "spinDist (spin b target so s) = Fin D" "0 < D"
  defines "s0 \<equiv> tick_state (tick b0 (Fin t0) (spin b target so s))"
  shows "mode s0 = Spin" "spinStart s0 = Some (Fin t0)" "speed s0 = Fin v0"
    "accel s0 = Fin (v0\<^sup>2 / (2 * D))" "spinT s0 = Fin (2 * D / v0)" "spinDist s0 = Fin D"
    "offset s0 = Fin 0"
proof -
  let ?s' = "spin b target so s"
  have T: "spinT ?s' = Fin (2 * D / v0)"
    using spin_physics(2) [OF assms(1-4)] stop_time [OF assms(2,4)] by simp
  have step: "spinStep (Fin t0) ?s' = ?s'\<lparr>spinStart := Some (Fin t0), offset := Fin 0\<rparr>"
    by (rule spinStep_first [OF spin_fields(6) _ spin_physics(1) [OF assms(1-4)] T])
       (use assms in \<open>simp_all add: spin_fields\<close>)
  have m: "mode ?s' = Spin" by (simp add: spin_fields)
  show "mode s0 = Spin" "spinStart s0 = Some (Fin t0)" "speed s0 = Fin v0"
    "accel s0 = Fin (v0\<^sup>2 / (2 * D))" "spinT s0 = Fin (2 * D / v0)" "spinDist s0 = Fin D"
    "offset s0 = Fin 0"
    unfolding s0_def
    using assms(1,3) T spin_physics(1) [OF assms(1-4)]
    by (simp_all add: tick_in_spin [OF m] step spin_fields(5,7))
qed

lemma running_spin_frame:
  fixes b :: browser and t :: real
  assumes "mode s = Spin" "spinStart s = Some (Fin t0)" "speed s = Fin v" "accel s = Fin a"
    and "spinT s = Fin T" "(t - t0) / 1000 \<le> T"
  defines "s1 \<equiv> tick_state (tick b (Fin t) s)"
  shows "mode s1 = Spin" "spinStart s1 = Some (Fin t0)" "speed s1 = Fin v" "accel s1 = Fin a"
    "spinT s1 = Fin T" "spinDist s1 = spinDist s"
    "offset s1 = Fin (v * ((t - t0) / 1000)
                       - 1 / 2 * a * ((t - t0) / 1000) * ((t - t0) / 1000))"
  unfolding s1_def using assms(1-5)
  by (simp_all add: tick_in_spin [OF assms(1)] spinStep_running [OF assms(2-6)])

lemma sample_target: "targetIdx (spin sampleBrowser (Some (Fin 2)) (rotations (Fin 6)) sampleReel) = Fin 2"
  by (simp add: spin_fields resolveTarget_def of_len_def sampleReel_fields trunc_def)

lemma rotations_value: "num_nullish (opt_rotations (rotations r)) (Fin 6) = r"
  by (simp add: rotations_def num_nullish_def)

lemma sample_spin:
  "spinDist (spin sampleBrowser (Some (Fin 2)) (rotations (Fin 6)) sampleReel) = Fin 4800"
  "spinT (spin sampleBrowser (Some (Fin 2)) (rotations (Fin 6)) sampleReel) = Fin (32 / 5)"
proof -
  show d: "spinDist (spin sampleBrowser (Some (Fin 2)) (rotations (Fin 6)) sampleReel) = Fin 4800"
    using sample_target
    by (simp add: spin_fields(1,2) rotations_value of_len_def sampleReel_fields)
  show "spinT (spin sampleBrowser (Some (Fin 2)) (rotations (Fin 6)) sampleReel) = Fin (32 / 5)"
    by (simp add: spin_fields(3,4) d sampleReel_fields)
qed

lemma spin_parabola_mono:
  fixes v0 D x y :: real
  assumes "0 < v0" "0 < D" "0 \<le> x" "x \<le> y" "y \<le> 2 * D / v0"
  shows "v0 * x - 1 / 2 * (v0\<^sup>2 / (2 * D)) * x * x
           \<le> v0 * y - 1 / 2 * (v0\<^sup>2 / (2 * D)) * y * y"
proof -
  let ?a = "v0\<^sup>2 / (2 * D)"
  have a: "0 < ?a" using assms by simp
  have aT: "?a * (2 * D / v0) = v0"
    using assms by (simp add: power2_eq_square)
  have "x + y \<le> 2 * (2 * D / v0)" using assms by linarith
  then have "?a * (x + y) \<le> ?a * (2 * (2 * D / v0))"
    using a by (simp only: mult_le_cancel_left_pos)
  also have "\<dots> = 2 * v0" using aT by (simp only: mult.left_commute)
  finally have slope: "0 \<le> v0 - 1 / 2 * ?a * (x + y)" by simp
  have "0 \<le> (y - x) * (v0 - 1 / 2 * ?a * (x + y))"
    using assms(4) slope by (simp only: mult_nonneg_nonneg diff_ge_0_iff_ge)
  also have "(y - x) * (v0 - 1 / 2 * ?a * (x + y))
               = (v0 * y - 1 / 2 * ?a * y * y) - (v0 * x - 1 / 2 * ?a * x * x)"
    by (simp add: algebra_simps diff_divide_distrib)
  finally show ?thesis by simp
qed

section \<open>Rounding to double precision\<close>

lemma pow2_powr: "pow2 e = 2 powr (real_of_int e)"
proof (cases "0 \<le> e")
  case True
  then have "2 powr (real_of_int e) = (2::real) powr (real (nat e))" by simp
  also have "\<dots> = 2 ^ nat e" by (rule powr_realpow) simp
  finally show ?thesis using True by (simp add: pow2_def)
next
  case False
  then have "real_of_int e = - real (nat (- e))" by simp
  then have "2 powr (real_of_int e) = 1 / (2::real) powr (real (nat (- e)))"
    by (simp only: powr_minus_divide)
  also have "(2::real) powr (real (nat (- e))) = 2 ^ nat (- e)" by (rule powr_realpow) simp
  finally show ?thesis using False by (simp add: pow2_def)
qed

lemma pow2_pos [simp]: "0 < pow2 e"
  by (simp add: pow2_powr)

lemma pow2_add: "pow2 (a + b) = pow2 a * pow2 b"
  by (simp add: pow2_powr powr_add)

lemma pow2_diff: "pow2 (a - b) = pow2 a / pow2 b"
  by (simp add: pow2_powr powr_diff)

lemma pow2_mono: "a \<le> b \<Longrightarrow> pow2 a \<le> pow2 b"
  by (simp add: pow2_powr)

lemma pow2_strict_mono: "a < b \<Longrightarrow> pow2 a < pow2 b"
  by (simp add: pow2_powr)

lemma pow2_less_cancel: "pow2 a < pow2 b \<Longrightarrow> a < b"
  by (simp add: pow2_powr)

lemma pow2_nat: "0 \<le> e \<Longrightarrow> pow2 e = 2 ^ nat e"
  by (simp add: pow2_def)

lemma bits_bounds: "0 < n \<Longrightarrow> 2 ^ (bits n - 1) \<le> n \<and> n < 2 ^ bits n"
proof (induction n rule: bits.induct)
  case (1 n)
  show ?case
  proof (cases "n div 2 = 0")
    case True
    with "1.prems" have "n = 1" by (simp add: div_eq_0_iff) 
    then show ?thesis by (simp add: bits.simps)
  next
    case False
    let ?m = "n div 2"
    have n: "n \<noteq> 0" using "1.prems" by simp
    from "1.IH" [OF n] False have ih: "2 ^ (bits ?m - 1) \<le> ?m" "?m < 2 ^ bits ?m" by simp_all
    have b: "bits n = Suc (bits ?m)" using n by (simp add: bits.simps)
    have pos: "0 < bits ?m" using False by (simp add: bits.simps)
    then have "(2::nat) ^ bits ?m = 2 * 2 ^ (bits ?m - 1)"
      by (cases "bits ?m") simp_all
    then have lo: "2 ^ bits ?m \<le> n" using ih(1) by linarith
    have "Suc ?m \<le> 2 ^ bits ?m" using ih(2) by simp
    then have "n < 2 * 2 ^ bits ?m" by linarith
    then show ?thesis using lo b by simp
  qed
qed

lemma real_Suc_le_power:
  fixes n k :: nat
  assumes "n < 2 ^ k"
  shows "real n + 1 \<le> 2 ^ k"
proof -
  from assms have "Suc n \<le> 2 ^ k" by (rule Suc_leI)
  then have "real (Suc n) \<le> real ((2::nat) ^ k)" by (simp only: of_nat_le_iff)
  then show ?thesis by simp
qed

lemma real_power_le:
  fixes n k :: nat
  assumes "2 ^ k \<le> n"
  shows "(2::real) ^ k \<le> real n"
proof -
  from assms have "real ((2::nat) ^ k) \<le> real n" by (simp only: of_nat_le_iff)
  then show ?thesis by simp
qed

lemma expo_bounds:
  assumes "0 < a"
  shows "pow2 (expo a) \<le> a" and "a < pow2 (expo a + 1)"
proof -
  have "pow2 (expo a) \<le> a \<and> a < pow2 (expo a + 1)"
  proof (cases "1 \<le> a")
    case True
    define n where "n = nat \<lfloor>a\<rfloor>"
    have fl1: "1 \<le> \<lfloor>a\<rfloor>" using True by simp
    have n: "0 < n" using fl1 by (simp add: n_def)
    have rn: "real n = of_int \<lfloor>a\<rfloor>" using fl1 by (simp add: n_def)
    from bits_bounds [OF n] have b: "2 ^ (bits n - 1) \<le> n" "n < 2 ^ bits n" by simp_all
    have k: "0 < bits n" using n by (simp add: bits.simps)
    have e: "expo a = int (bits n) - 1" using True by (simp add: expo_def n_def)
    have p1: "pow2 (expo a) = 2 ^ (bits n - 1)"
      using k by (simp add: e pow2_def nat_diff_distrib')
    have p2: "pow2 (expo a + 1) = 2 ^ bits n" by (simp add: e pow2_def)
    have "real n \<le> a" "a < real n + 1" unfolding rn by linarith+
    then show ?thesis
      using real_power_le [OF b(1)] real_Suc_le_power [OF b(2)] unfolding p1 p2 by linarith
  next
    case False
    define y where "y = 1 / a"
    define N where "N = \<lceil>y\<rceil>"
    define n where "n = nat (N - 1)"
    have y: "1 < y" using False assms by (simp add: y_def)
    have Ny: "y \<le> of_int N" "of_int N - 1 < y" unfolding N_def by linarith+
    have N: "2 \<le> N" using y Ny(1) by linarith
    have n: "0 < n" using N by (simp add: n_def)
    have rn: "real n = of_int N - 1" using N by (simp add: n_def)
    from bits_bounds [OF n] have b: "2 ^ (bits n - 1) \<le> n" "n < 2 ^ bits n" by simp_all
    have k: "0 < bits n" using n by (simp add: bits.simps)
    have e: "expo a = - int (bits n)" using False by (simp add: expo_def n_def N_def y_def)
    have "y \<le> 2 ^ bits n" using real_Suc_le_power [OF b(2)] rn Ny(1) by linarith
    then have "1 \<le> 2 ^ bits n * a" using assms by (simp add: y_def field_simps)
    then have lo: "1 / 2 ^ bits n \<le> a" by (simp add: field_simps)
    have "(2::real) ^ (bits n - 1) < y" using real_power_le [OF b(1)] rn Ny(2) by linarith
    then have "2 ^ (bits n - 1) * a < 1" using assms by (simp add: y_def field_simps)
    then have hi: "a < 1 / 2 ^ (bits n - 1)" by (simp add: field_simps)
    have p1: "pow2 (expo a) = 1 / 2 ^ bits n" using k by (simp add: e pow2_def)
    have p2: "pow2 (expo a + 1) = 1 / 2 ^ (bits n - 1)"
    proof (cases "bits n = 1")
      case True
      then show ?thesis by (simp add: e pow2_def)
    next
      case False
      then have "2 \<le> bits n" using k by simp
      then show ?thesis by (simp add: e pow2_def nat_diff_distrib')
    qed
    show ?thesis using lo hi unfolding p1 p2 by simp
  qed
  then show "pow2 (expo a) \<le> a" and "a < pow2 (expo a + 1)" by simp_all
qed

lemma expo_unique:
  assumes "0 < a" "pow2 e \<le> a" "a < pow2 (e + 1)"
  shows "expo a = e"
proof -
  have "pow2 (expo a) < pow2 (e + 1)" using expo_bounds(1) [OF assms(1)] assms(3) by linarith
  then have "expo a < e + 1" by (rule pow2_less_cancel)
  moreover have "pow2 e < pow2 (expo a + 1)" using expo_bounds(2) [OF assms(1)] assms(2) by linarith
  then have "e < expo a + 1" by (rule pow2_less_cancel)
  ultimately show ?thesis by simp
qed

lemma round_even_floor: "\<lfloor>q\<rfloor> \<le> round_even q \<and> round_even q \<le> \<lfloor>q\<rfloor> + 1"
  by (simp add: round_even_def Let_def)

lemma round_even_err: "\<bar>of_int (round_even q) - q\<bar> \<le> 1 / 2"
proof -
  have "of_int \<lfloor>q\<rfloor> \<le> q" "q < of_int \<lfloor>q\<rfloor> + 1" by linarith+
  then show ?thesis by (auto simp add: round_even_def Let_def)
qed

lemma round_even_ge:
  assumes "of_int k \<le> q"
  shows "k \<le> round_even q"
proof -
  from assms have "k \<le> \<lfloor>q\<rfloor>" by (simp add: le_floor_iff)
  then show ?thesis using round_even_floor [of q] by linarith
qed

lemma round_even_le: "q \<le> of_int k \<Longrightarrow> round_even q \<le> k"
proof (cases "q = of_int k")
  case True
  then show ?thesis by (simp add: round_even_def Let_def)
next
  case False
  assume "q \<le> of_int k"
  with False have "q < of_int k" by simp
  then have "\<lfloor>q\<rfloor> < k" by (simp add: floor_less_iff)
  then show ?thesis using round_even_floor [of q] by linarith
qed

lemma round_even_int [simp]: "round_even (of_int k) = k"
  by (simp add: round_even_def Let_def)

lemma fl_pos_unfold:
  assumes "0 < x"
  shows "fl x =
     (let e = max (expo x) (- 1022); u = pow2 (e - 52);
          r = of_int (round_even (x / u)) * u
      in if pow2 1024 \<le> r then PlusInf else if r = 0 then Dbl 0 else Dbl r)"
  using assms by (simp add: fl_def Let_def)

lemma scaled_round:
  assumes "0 < u" "of_int lo * u \<le> x" "x \<le> of_int hi * u"
  shows "of_int lo * u \<le> of_int (round_even (x / u)) * u"
    and "of_int (round_even (x / u)) * u \<le> of_int hi * u"
    and "\<bar>of_int (round_even (x / u)) * u - x\<bar> \<le> u / 2"
proof -
  have "of_int lo \<le> x / u" using assms by (simp add: field_simps)
  then have "lo \<le> round_even (x / u)" by (rule round_even_ge)
  then have "(of_int lo :: real) \<le> of_int (round_even (x / u))" by simp
  then show "of_int lo * u \<le> of_int (round_even (x / u)) * u"
    using assms(1) by (simp only: mult_le_cancel_right_pos)
  have "x / u \<le> of_int hi" using assms by (simp add: field_simps)
  then have "round_even (x / u) \<le> hi" by (rule round_even_le)
  then have "(of_int (round_even (x / u)) :: real) \<le> of_int hi" by simp
  then show "of_int (round_even (x / u)) * u \<le> of_int hi * u"
    using assms(1) by (simp only: mult_le_cancel_right_pos)
  have "of_int (round_even (x / u)) * u - x = (of_int (round_even (x / u)) - x / u) * u"
    using assms(1) by (simp add: field_simps)
  then have "\<bar>of_int (round_even (x / u)) * u - x\<bar>
               = \<bar>of_int (round_even (x / u)) - x / u\<bar> * u"
    using assms(1) by (simp add: abs_mult)
  also have "\<dots> \<le> 1 / 2 * u"
    using round_even_err [of "x / u"] assms(1) by (simp only: mult_le_cancel_right_pos)
  finally show "\<bar>of_int (round_even (x / u)) * u - x\<bar> \<le> u / 2" by simp
qed

lemma pow2_split: "pow2 a = pow2 k * pow2 (a - k)"
  by (simp add: pow2_add [symmetric])

lemma pow2_52: "pow2 e = of_int (2 ^ 52) * pow2 (e - 52)"
  using pow2_split [of e 52] by (simp add: pow2_def)

lemma pow2_53: "pow2 (e + 1) = of_int (2 ^ 53) * pow2 (e - 52)"
proof -
  have "e + 1 - 53 = e - 52" by simp
  then show ?thesis using pow2_split [of "e + 1" 53] by (simp add: pow2_def)
qed

lemma pow2_half: "pow2 (e - 53) = pow2 (e - 52) / 2"
proof -
  have "e - 52 - 1 = e - 53" by simp
  then show ?thesis using pow2_split [of "e - 52" 1] by (simp add: pow2_def)
qed

lemma fl_normal:
  assumes "0 < x" "pow2 e \<le> x" "x < pow2 (e + 1)" "- 1022 \<le> e" "e \<le> 1022"
  shows "fl x = Dbl (of_int (round_even (x / pow2 (e - 52))) * pow2 (e - 52))"
    and "pow2 e \<le> of_int (round_even (x / pow2 (e - 52))) * pow2 (e - 52)"
    and "of_int (round_even (x / pow2 (e - 52))) * pow2 (e - 52) \<le> pow2 (e + 1)"
    and "\<bar>of_int (round_even (x / pow2 (e - 52))) * pow2 (e - 52) - x\<bar> \<le> pow2 (e - 53)"
proof -
  let ?u = "pow2 (e - 52)"
  let ?r = "of_int (round_even (x / ?u)) * ?u"
  have ex: "expo x = e" by (rule expo_unique [OF assms(1-3)])
  have mx: "max (expo x) (- 1022) = e" using ex assms(4) by simp
  have lo: "of_int (2 ^ 52) * ?u \<le> x" using assms(2) by (simp only: pow2_52 [symmetric])
  have hi: "x \<le> of_int (2 ^ 53) * ?u" using assms(3) by (simp only: pow2_53 [symmetric])
  note sr = scaled_round [OF pow2_pos lo hi]
  have r1: "pow2 e \<le> ?r" using sr(1) by (simp only: pow2_52 [symmetric])
  have r2: "?r \<le> pow2 (e + 1)" using sr(2) by (simp only: pow2_53 [symmetric])
  have r3: "\<bar>?r - x\<bar> \<le> pow2 (e - 53)" using sr(3) by (simp only: pow2_half)
  have "pow2 (e + 1) \<le> pow2 1023" using assms(5) by (intro pow2_mono) simp
  moreover have "pow2 1023 < pow2 1024" by (rule pow2_strict_mono) simp
  ultimately have small: "\<not> pow2 1024 \<le> ?r" using r2 by linarith
  have nz: "?r \<noteq> 0" using r1 pow2_pos [of e] by linarith
  show "fl x = Dbl ?r"
    using small nz by (simp add: fl_pos_unfold [OF assms(1)] mx Let_def)
  show "pow2 e \<le> ?r" by (rule r1)
  show "?r \<le> pow2 (e + 1)" by (rule r2)
  show "\<bar>?r - x\<bar> \<le> pow2 (e - 53)" by (rule r3)
qed

lemma fl_eval:
  assumes "0 < x" "pow2 e \<le> x" "x < pow2 (e + 1)" "- 1022 \<le> e" "e \<le> 1022"
    and "round_even (x / pow2 (e - 52)) = m"
  shows "fl x = Dbl (of_int m * pow2 (e - 52))"
  using fl_normal(1) [OF assms(1-5)] assms(6) by simp


section \<open>Evaluations in double precision\<close>

text \<open>
  The operations of a finite result, and the values that the sample spins compute. Each
  evaluation names the exponent and the significand of the rounded result.
\<close>

lemma d_mul_fin: "a \<noteq> 0 \<Longrightarrow> b \<noteq> 0 \<Longrightarrow> d_mul (Dbl a) (Dbl b) = fl (a * b)"
  by (simp add: d_mul_def)

lemma d_div_fin: "a \<noteq> 0 \<Longrightarrow> b \<noteq> 0 \<Longrightarrow> d_div (Dbl a) (Dbl b) = fl (a / b)"
  by (simp add: d_div_def)

lemma d_add_fin: "a + b \<noteq> 0 \<Longrightarrow> d_add (Dbl a) (Dbl b) = fl (a + b)"
  by (auto simp add: d_add_def)

lemma d_sub_fin: "a \<noteq> b \<Longrightarrow> d_sub (Dbl a) (Dbl b) = fl (a - b)"
  by (auto simp add: d_sub_def d_add_def)

lemma sum7_a: "d_add (Dbl 2) (Dbl 5) = Dbl 7"
proof -
  have "fl (2 + 5) = Dbl (of_int 7881299347898368 * pow2 (2 - 52))"
    by (rule fl_eval) (simp_all add: pow2_def round_even_def Let_def)
  then show ?thesis by (simp add: d_add_fin pow2_def)
qed

lemma cycle_a: "d_mul (Dbl 5) (Dbl 150) = Dbl 750"
proof -
  have "fl (5 * 150) = Dbl (of_int 6597069766656000 * pow2 (9 - 52))"
    by (rule fl_eval) (simp_all add: pow2_def round_even_def Let_def)
  then show ?thesis by (simp add: d_mul_fin pow2_def)
qed

lemma rotcycle_a: "d_mul (Dbl 5) (Dbl 750) = Dbl 3750"
proof -
  have "fl (5 * 750) = Dbl (of_int 8246337208320000 * pow2 (11 - 52))"
    by (rule fl_eval) (simp_all add: pow2_def round_even_def Let_def)
  then show ?thesis by (simp add: d_mul_fin pow2_def)
qed

lemma tgtlh_a: "d_mul (Dbl 2) (Dbl 150) = Dbl 300"
proof -
  have "fl (2 * 150) = Dbl (of_int 5277655813324800 * pow2 (8 - 52))"
    by (rule fl_eval) (simp_all add: pow2_def round_even_def Let_def)
  then show ?thesis by (simp add: d_mul_fin pow2_def)
qed

lemma dist_a: "d_add (Dbl 3750) (Dbl 300) = Dbl 4050"
proof -
  have "fl (3750 + 300) = Dbl (of_int 8906044184985600 * pow2 (11 - 52))"
    by (rule fl_eval) (simp_all add: pow2_def round_even_def Let_def)
  then show ?thesis by (simp add: d_add_fin pow2_def)
qed

lemma vsq_a: "d_mul (Dbl 1500) (Dbl 1500) = Dbl 2250000"
proof -
  have "fl (1500 * 1500) = Dbl (of_int 4831838208000000 * pow2 (21 - 52))"
    by (rule fl_eval) (simp_all add: pow2_def round_even_def Let_def)
  then show ?thesis by (simp add: d_mul_fin pow2_def)
qed

lemma twod_a: "d_mul (Dbl 2) (Dbl 4050) = Dbl 8100"
proof -
  have "fl (2 * 4050) = Dbl (of_int 8906044184985600 * pow2 (12 - 52))"
    by (rule fl_eval) (simp_all add: pow2_def round_even_def Let_def)
  then show ?thesis by (simp add: d_mul_fin pow2_def)
qed

lemma accel_a: "d_div (Dbl 2250000) (Dbl 8100) = Dbl (4886718345671111 / 17592186044416)"
proof -
  have "fl (2250000 / 8100) = Dbl (of_int 4886718345671111 * pow2 (8 - 52))"
    by (rule fl_eval) (simp_all add: pow2_def round_even_def Let_def)
  then show ?thesis by (simp add: d_div_fin pow2_def)
qed

lemma dur_a: "d_div (Dbl 1500) (Dbl (4886718345671111 / 17592186044416)) = Dbl (3039929748475085 / 562949953421312)"
proof -
  have "fl (1500 / (4886718345671111 / 17592186044416)) = Dbl (of_int 6079859496950170 * pow2 (2 - 52))"
    by (rule fl_eval) (simp_all add: pow2_def round_even_def Let_def)
  then show ?thesis by (simp add: d_div_fin pow2_def)
qed

lemma half_a: "d_mul (Dbl (1 / 2)) (Dbl (4886718345671111 / 17592186044416)) = Dbl (4886718345671111 / 35184372088832)"
proof -
  have "fl ((1 / 2) * (4886718345671111 / 17592186044416)) = Dbl (of_int 4886718345671111 * pow2 (7 - 52))"
    by (rule fl_eval) (simp_all add: pow2_def round_even_def Let_def)
  then show ?thesis by (simp add: d_mul_fin pow2_def)
qed

lemma ts_t1_a: "d_sub (Dbl (176947199 / 32768)) (Dbl 0) = Dbl (176947199 / 32768)"
proof -
  have "fl ((176947199 / 32768) - 0) = Dbl (of_int 5937362756435968 * pow2 (12 - 52))"
    by (rule fl_eval) (simp_all add: pow2_def round_even_def Let_def)
  then show ?thesis by (simp add: d_sub_fin pow2_def)
qed

lemma el_t1_a: "d_div (Dbl (176947199 / 32768)) (Dbl 1000) = Dbl (6079859462590431 / 1125899906842624)"
proof -
  have "fl ((176947199 / 32768) / 1000) = Dbl (of_int 6079859462590431 * pow2 (2 - 52))"
    by (rule fl_eval) (simp_all add: pow2_def round_even_def Let_def)
  then show ?thesis by (simp add: d_div_fin pow2_def)
qed

lemma p_t1_a: "d_mul (Dbl 1500) (Dbl (6079859462590431 / 1125899906842624)) = Dbl (530841597 / 65536)"
proof -
  have "fl (1500 * (6079859462590431 / 1125899906842624)) = Dbl (of_int 8906044134653952 * pow2 (12 - 52))"
    by (rule fl_eval) (simp_all add: pow2_def round_even_def Let_def)
  then show ?thesis by (simp add: d_mul_fin pow2_def)
qed

lemma q1_t1_a: "d_mul (Dbl (4886718345671111 / 35184372088832)) (Dbl (6079859462590431 / 1125899906842624)) = Dbl (6597069729373297 / 8796093022208)"
proof -
  have "fl ((4886718345671111 / 35184372088832) * (6079859462590431 / 1125899906842624)) = Dbl (of_int 6597069729373297 * pow2 (9 - 52))"
    by (rule fl_eval) (simp_all add: pow2_def round_even_def Let_def)
  then show ?thesis by (simp add: d_mul_fin pow2_def)
qed

lemma q_t1_a: "d_mul (Dbl (6597069729373297 / 8796093022208)) (Dbl (6079859462590431 / 1125899906842624)) = Dbl (8906044084322303 / 2199023255552)"
proof -
  have "fl ((6597069729373297 / 8796093022208) * (6079859462590431 / 1125899906842624)) = Dbl (of_int 8906044084322303 * pow2 (11 - 52))"
    by (rule fl_eval) (simp_all add: pow2_def round_even_def Let_def)
  then show ?thesis by (simp add: d_mul_fin pow2_def)
qed

lemma x_t1_a: "d_sub (Dbl (530841597 / 65536)) (Dbl (8906044084322303 / 2199023255552)) = Dbl (8906044184985601 / 2199023255552)"
proof -
  have "fl ((530841597 / 65536) - (8906044084322303 / 2199023255552)) = Dbl (of_int 8906044184985601 * pow2 (11 - 52))"
    by (rule fl_eval) (simp_all add: pow2_def round_even_def Let_def)
  then show ?thesis by (simp add: d_sub_fin pow2_def)
qed

lemma ts_t2_a: "d_sub (Dbl (353894399 / 65536)) (Dbl 0) = Dbl (353894399 / 65536)"
proof -
  have "fl ((353894399 / 65536) - 0) = Dbl (of_int 5937362773213184 * pow2 (12 - 52))"
    by (rule fl_eval) (simp_all add: pow2_def round_even_def Let_def)
  then show ?thesis by (simp add: d_sub_fin pow2_def)
qed

lemma el_t2_a: "d_div (Dbl (353894399 / 65536)) (Dbl 1000) = Dbl (1519964869942575 / 281474976710656)"
proof -
  have "fl ((353894399 / 65536) / 1000) = Dbl (of_int 6079859479770300 * pow2 (2 - 52))"
    by (rule fl_eval) (simp_all add: pow2_def round_even_def Let_def)
  then show ?thesis by (simp add: d_div_fin pow2_def)
qed

lemma p_t2_a: "d_mul (Dbl 1500) (Dbl (1519964869942575 / 281474976710656)) = Dbl (8906044159819775 / 1099511627776)"
proof -
  have "fl (1500 * (1519964869942575 / 281474976710656)) = Dbl (of_int 8906044159819775 * pow2 (12 - 52))"
    by (rule fl_eval) (simp_all add: pow2_def round_even_def Let_def)
  then show ?thesis by (simp add: d_mul_fin pow2_def)
qed

lemma q1_t2_a: "d_mul (Dbl (4886718345671111 / 35184372088832)) (Dbl (1519964869942575 / 281474976710656)) = Dbl (824633718501831 / 1099511627776)"
proof -
  have "fl ((4886718345671111 / 35184372088832) * (1519964869942575 / 281474976710656)) = Dbl (of_int 6597069748014648 * pow2 (9 - 52))"
    by (rule fl_eval) (simp_all add: pow2_def round_even_def Let_def)
  then show ?thesis by (simp add: d_mul_fin pow2_def)
qed

lemma q_t2_a: "d_mul (Dbl (824633718501831 / 1099511627776)) (Dbl (1519964869942575 / 281474976710656)) = Dbl (4453022067326975 / 1099511627776)"
proof -
  have "fl ((824633718501831 / 1099511627776) * (1519964869942575 / 281474976710656)) = Dbl (of_int 8906044134653950 * pow2 (11 - 52))"
    by (rule fl_eval) (simp_all add: pow2_def round_even_def Let_def)
  then show ?thesis by (simp add: d_mul_fin pow2_def)
qed

lemma x_t2_a: "d_sub (Dbl (8906044159819775 / 1099511627776)) (Dbl (4453022067326975 / 1099511627776)) = Dbl 4050"
proof -
  have "fl ((8906044159819775 / 1099511627776) - (4453022067326975 / 1099511627776)) = Dbl (of_int 8906044184985600 * pow2 (11 - 52))"
    by (rule fl_eval) (simp_all add: pow2_def round_even_def Let_def)
  then show ?thesis by (simp add: d_sub_fin pow2_def)
qed

lemma ts_t3_a: "d_sub (Dbl 5400) (Dbl 0) = Dbl 5400"
proof -
  have "fl (5400 - 0) = Dbl (of_int 5937362789990400 * pow2 (12 - 52))"
    by (rule fl_eval) (simp_all add: pow2_def round_even_def Let_def)
  then show ?thesis by (simp add: d_sub_fin pow2_def)
qed

lemma el_t3_a: "d_div (Dbl 5400) (Dbl 1000) = Dbl (3039929748475085 / 562949953421312)"
proof -
  have "fl (5400 / 1000) = Dbl (of_int 6079859496950170 * pow2 (2 - 52))"
    by (rule fl_eval) (simp_all add: pow2_def round_even_def Let_def)
  then show ?thesis by (simp add: d_div_fin pow2_def)
qed

lemma p_t3_a: "d_mul (Dbl 1500) (Dbl (3039929748475085 / 562949953421312)) = Dbl (8906044184985601 / 1099511627776)"
proof -
  have "fl (1500 * (3039929748475085 / 562949953421312)) = Dbl (of_int 8906044184985601 * pow2 (12 - 52))"
    by (rule fl_eval) (simp_all add: pow2_def round_even_def Let_def)
  then show ?thesis by (simp add: d_mul_fin pow2_def)
qed

lemma q1_t3_a: "d_mul (Dbl (4886718345671111 / 35184372088832)) (Dbl (3039929748475085 / 562949953421312)) = Dbl 750"
proof -
  have "fl ((4886718345671111 / 35184372088832) * (3039929748475085 / 562949953421312)) = Dbl (of_int 6597069766656000 * pow2 (9 - 52))"
    by (rule fl_eval) (simp_all add: pow2_def round_even_def Let_def)
  then show ?thesis by (simp add: d_mul_fin pow2_def)
qed

lemma q_t3_a: "d_mul (Dbl 750) (Dbl (3039929748475085 / 562949953421312)) = Dbl (8906044184985601 / 2199023255552)"
proof -
  have "fl (750 * (3039929748475085 / 562949953421312)) = Dbl (of_int 8906044184985601 * pow2 (11 - 52))"
    by (rule fl_eval) (simp_all add: pow2_def round_even_def Let_def)
  then show ?thesis by (simp add: d_mul_fin pow2_def)
qed

lemma x_t3_a: "d_sub (Dbl (8906044184985601 / 1099511627776)) (Dbl (8906044184985601 / 2199023255552)) = Dbl (8906044184985601 / 2199023255552)"
proof -
  have "fl ((8906044184985601 / 1099511627776) - (8906044184985601 / 2199023255552)) = Dbl (of_int 8906044184985601 * pow2 (11 - 52))"
    by (rule fl_eval) (simp_all add: pow2_def round_even_def Let_def)
  then show ?thesis by (simp add: d_sub_fin pow2_def)
qed

lemma rotcycle_b: "d_mul (Dbl 6) (Dbl 750) = Dbl 4500"
proof -
  have "fl (6 * 750) = Dbl (of_int 4947802324992000 * pow2 (12 - 52))"
    by (rule fl_eval) (simp_all add: pow2_def round_even_def Let_def)
  then show ?thesis by (simp add: d_mul_fin pow2_def)
qed

lemma dist_b: "d_add (Dbl 4500) (Dbl 300) = Dbl 4800"
proof -
  have "fl (4500 + 300) = Dbl (of_int 5277655813324800 * pow2 (12 - 52))"
    by (rule fl_eval) (simp_all add: pow2_def round_even_def Let_def)
  then show ?thesis by (simp add: d_add_fin pow2_def)
qed

lemma twod_b: "d_mul (Dbl 2) (Dbl 4800) = Dbl 9600"
proof -
  have "fl (2 * 4800) = Dbl (of_int 5277655813324800 * pow2 (13 - 52))"
    by (rule fl_eval) (simp_all add: pow2_def round_even_def Let_def)
  then show ?thesis by (simp add: d_mul_fin pow2_def)
qed

lemma accel_b: "d_div (Dbl 2250000) (Dbl 9600) = Dbl (1875 / 8)"
proof -
  have "fl (2250000 / 9600) = Dbl (of_int 8246337208320000 * pow2 (7 - 52))"
    by (rule fl_eval) (simp_all add: pow2_def round_even_def Let_def)
  then show ?thesis by (simp add: d_div_fin pow2_def)
qed

lemma dur_b: "d_div (Dbl 1500) (Dbl (1875 / 8)) = Dbl (3602879701896397 / 562949953421312)"
proof -
  have "fl (1500 / (1875 / 8)) = Dbl (of_int 7205759403792794 * pow2 (2 - 52))"
    by (rule fl_eval) (simp_all add: pow2_def round_even_def Let_def)
  then show ?thesis by (simp add: d_div_fin pow2_def)
qed

lemma half_b: "d_mul (Dbl (1 / 2)) (Dbl (1875 / 8)) = Dbl (1875 / 16)"
proof -
  have "fl ((1 / 2) * (1875 / 8)) = Dbl (of_int 8246337208320000 * pow2 (6 - 52))"
    by (rule fl_eval) (simp_all add: pow2_def round_even_def Let_def)
  then show ?thesis by (simp add: d_mul_fin pow2_def)
qed

lemma ts_t1_b: "d_sub (Dbl 6400) (Dbl 0) = Dbl 6400"
proof -
  have "fl (6400 - 0) = Dbl (of_int 7036874417766400 * pow2 (12 - 52))"
    by (rule fl_eval) (simp_all add: pow2_def round_even_def Let_def)
  then show ?thesis by (simp add: d_sub_fin pow2_def)
qed

lemma el_t1_b: "d_div (Dbl 6400) (Dbl 1000) = Dbl (3602879701896397 / 562949953421312)"
proof -
  have "fl (6400 / 1000) = Dbl (of_int 7205759403792794 * pow2 (2 - 52))"
    by (rule fl_eval) (simp_all add: pow2_def round_even_def Let_def)
  then show ?thesis by (simp add: d_div_fin pow2_def)
qed

lemma p_t1_b: "d_mul (Dbl 1500) (Dbl (3602879701896397 / 562949953421312)) = Dbl 9600"
proof -
  have "fl (1500 * (3602879701896397 / 562949953421312)) = Dbl (of_int 5277655813324800 * pow2 (13 - 52))"
    by (rule fl_eval) (simp_all add: pow2_def round_even_def Let_def)
  then show ?thesis by (simp add: d_mul_fin pow2_def)
qed

lemma q1_t1_b: "d_mul (Dbl (1875 / 16)) (Dbl (3602879701896397 / 562949953421312)) = Dbl 750"
proof -
  have "fl ((1875 / 16) * (3602879701896397 / 562949953421312)) = Dbl (of_int 6597069766656000 * pow2 (9 - 52))"
    by (rule fl_eval) (simp_all add: pow2_def round_even_def Let_def)
  then show ?thesis by (simp add: d_mul_fin pow2_def)
qed

lemma q_t1_b: "d_mul (Dbl 750) (Dbl (3602879701896397 / 562949953421312)) = Dbl 4800"
proof -
  have "fl (750 * (3602879701896397 / 562949953421312)) = Dbl (of_int 5277655813324800 * pow2 (12 - 52))"
    by (rule fl_eval) (simp_all add: pow2_def round_even_def Let_def)
  then show ?thesis by (simp add: d_mul_fin pow2_def)
qed

lemma x_t1_b: "d_sub (Dbl 9600) (Dbl 4800) = Dbl 4800"
proof -
  have "fl (9600 - 4800) = Dbl (of_int 5277655813324800 * pow2 (12 - 52))"
    by (rule fl_eval) (simp_all add: pow2_def round_even_def Let_def)
  then show ?thesis by (simp add: d_sub_fin pow2_def)
qed

lemma ts_t2_b: "d_sub (Dbl 6401) (Dbl 0) = Dbl 6401"
proof -
  have "fl (6401 - 0) = Dbl (of_int 7037973929394176 * pow2 (12 - 52))"
    by (rule fl_eval) (simp_all add: pow2_def round_even_def Let_def)
  then show ?thesis by (simp add: d_sub_fin pow2_def)
qed

lemma el_t2_b: "d_div (Dbl 6401) (Dbl 1000) = Dbl (1801721325924909 / 281474976710656)"
proof -
  have "fl (6401 / 1000) = Dbl (of_int 7206885303699636 * pow2 (2 - 52))"
    by (rule fl_eval) (simp_all add: pow2_def round_even_def Let_def)
  then show ?thesis by (simp add: d_div_fin pow2_def)
qed


section \<open>Spin frames in double precision\<close>

lemma spin64_fields:
  "e_targetIdx (spin64 r t rots s) = resolveTarget64 r t s"
  "e_spinDist (spin64 r t rots s) =
     d_add (d_mul (case rots of None \<Rightarrow> Dbl 6 | Some x \<Rightarrow> x)
                  (d_mul (of_len64 (e_items s)) (e_lineHeight s)))
           (d_mul (resolveTarget64 r t s) (e_lineHeight s))"
  "e_accel (spin64 r t rots s) =
     d_div (d_mul (e_speed s) (e_speed s)) (d_mul (Dbl 2) (e_spinDist (spin64 r t rots s)))"
  "e_spinT (spin64 r t rots s) = d_div (e_speed s) (e_accel (spin64 r t rots s))"
  "e_mode (spin64 r t rots s) = Spin"
  "e_spinStart (spin64 r t rots s) = None"
  "e_speed (spin64 r t rots s) = e_speed s"
  by (simp_all add: spin64_def Let_def)

lemma tick64_in_spin:
  assumes "e_mode s = Spin"
  shows "e_offset (tick64 ts s) = e_offset (spinStep64 ts s)"
    and "e_mode (tick64 ts s) = e_mode (spinStep64 ts s)"
    and "e_spinStart (tick64 ts s) = e_spinStart (spinStep64 ts s)"
    and "e_speed (tick64 ts s) = e_speed s"
    and "e_accel (tick64 ts s) = e_accel s"
    and "e_spinT (tick64 ts s) = e_spinT s"
    and "e_spinDist (tick64 ts s) = e_spinDist s"
  using assms by (simp_all add: tick64_def advance64_def spinStep64_def Let_def)

lemma elapsed64_same: "elapsed64 (Dbl t) (Dbl t) = Dbl 0"
  by (simp add: elapsed64_def d_sub_def d_add_def d_div_def signed_zero_def)

lemma spinOffset64_zero:
  assumes "0 < v" "d_mul (Dbl (1 / 2)) a = Dbl h" "0 \<le> h"
  shows "spinOffset64 (Dbl v) a (Dbl 0) = Dbl 0"
  using assms
  by (simp add: spinOffset64_def)
     (simp add: d_mul_def d_sub_def d_add_def signed_zero_def)

lemma spinStep64_first:
  assumes "e_spinStart s = None"
  shows "spinStep64 (Dbl t0) s =
     (if d_le (Dbl 0) (e_spinT s)
      then s\<lparr>e_spinStart := Some (Dbl t0),
              e_offset := spinOffset64 (e_speed s) (e_accel s) (Dbl 0)\<rparr>
      else s\<lparr>e_spinStart := Some (Dbl t0), e_offset := e_spinDist s, e_mode := Pause,
              e_pauseStart := Some (Dbl t0)\<rparr>)"
  using assms by (simp add: spinStep64_def Let_def to_number64_def elapsed64_same)

lemma spinStep64_running:
  assumes "e_spinStart s = Some t0"
  shows "spinStep64 ts s =
     (if d_le (elapsed64 ts t0) (e_spinT s)
      then s\<lparr>e_offset := spinOffset64 (e_speed s) (e_accel s) (elapsed64 ts t0)\<rparr>
      else s\<lparr>e_offset := e_spinDist s, e_mode := Pause, e_pauseStart := Some ts\<rparr>)"
  using assms by (simp add: spinStep64_def Let_def to_number64_def)

text \<open>The frames of a spin, field by field.\<close>

lemma first_frame64:
  assumes "e_mode s = Spin" "e_spinStart s = None" "d_le (Dbl 0) (e_spinT s)"
  shows "e_mode (tick64 (Dbl t0) s) = Spin"
    and "e_spinStart (tick64 (Dbl t0) s) = Some (Dbl t0)"
    and "e_offset (tick64 (Dbl t0) s) = spinOffset64 (e_speed s) (e_accel s) (Dbl 0)"
    and "e_speed (tick64 (Dbl t0) s) = e_speed s"
    and "e_accel (tick64 (Dbl t0) s) = e_accel s"
    and "e_spinT (tick64 (Dbl t0) s) = e_spinT s"
    and "e_spinDist (tick64 (Dbl t0) s) = e_spinDist s"
  using assms by (simp_all add: tick64_in_spin spinStep64_first)

lemma running_frame64:
  assumes "e_mode s = Spin" "e_spinStart s = Some t0" "d_le (elapsed64 ts t0) (e_spinT s)"
  shows "e_mode (tick64 ts s) = Spin"
    and "e_spinStart (tick64 ts s) = Some t0"
    and "e_offset (tick64 ts s) = spinOffset64 (e_speed s) (e_accel s) (elapsed64 ts t0)"
    and "e_speed (tick64 ts s) = e_speed s"
    and "e_accel (tick64 ts s) = e_accel s"
    and "e_spinT (tick64 ts s) = e_spinT s"
    and "e_spinDist (tick64 ts s) = e_spinDist s"
  using assms by (simp_all add: tick64_in_spin spinStep64_running)

lemma stopping_frame64:
  assumes "e_mode s = Spin" "e_spinStart s = Some t0" "\<not> d_le (elapsed64 ts t0) (e_spinT s)"
  shows "e_mode (tick64 ts s) = Pause"
    and "e_offset (tick64 ts s) = e_spinDist s"
  using assms by (simp_all add: tick64_in_spin spinStep64_running)

text \<open>The sample spin of five rotations to item 2.\<close>

lemma sample_target64:
  "resolveTarget64 r (Some (Dbl 2)) sampleEngine = Dbl 2"
proof -
  have a: "d_rem (Dbl 2) (Dbl 5) = Dbl 2"
    by (simp add: d_rem_def trunc64_def Let_def)
  have b: "d_rem (Dbl 7) (Dbl 5) = Dbl 2"
    by (simp add: d_rem_def trunc64_def Let_def)
  show ?thesis
    by (simp add: resolveTarget64_def of_len64_def sampleEngine_def a sum7_a b)
qed

lemma five_turns:
  "e_spinDist (spin64 r (Some (Dbl 2)) (Some (Dbl 5)) sampleEngine) = Dbl 4050"
  "e_accel (spin64 r (Some (Dbl 2)) (Some (Dbl 5)) sampleEngine) = Dbl (4886718345671111 / 17592186044416)"
  "e_spinT (spin64 r (Some (Dbl 2)) (Some (Dbl 5)) sampleEngine) = Dbl (3039929748475085 / 562949953421312)"
  "e_speed (spin64 r (Some (Dbl 2)) (Some (Dbl 5)) sampleEngine) = Dbl 1500"
proof -
  let ?S = "spin64 r (Some (Dbl 2)) (Some (Dbl 5)) sampleEngine"
  have f: "e_items sampleEngine = [''A'', ''B'', ''C'', ''D'', ''E'']"
    "e_lineHeight sampleEngine = Dbl 150" "e_speed sampleEngine = Dbl 1500"
    by (simp_all add: sampleEngine_def)
  show d: "e_spinDist ?S = Dbl 4050"
    by (simp add: spin64_fields(2) sample_target64 f of_len64_def cycle_a rotcycle_a tgtlh_a dist_a)
  show a: "e_accel ?S = Dbl (4886718345671111 / 17592186044416)"
    by (simp add: spin64_fields(3) d f vsq_a twod_a accel_a)
  show "e_spinT ?S = Dbl (3039929748475085 / 562949953421312)"
    by (simp add: spin64_fields(4) a f dur_a)
  show "e_speed ?S = Dbl 1500" by (simp add: spin64_fields(7) f)
qed

lemma five_turns_start:
  "e_mode (tick64 (Dbl 0) (spin64 r (Some (Dbl 2)) (Some (Dbl 5)) sampleEngine)) = Spin"
  "e_spinStart (tick64 (Dbl 0) (spin64 r (Some (Dbl 2)) (Some (Dbl 5)) sampleEngine)) = Some (Dbl 0)"
  "e_offset (tick64 (Dbl 0) (spin64 r (Some (Dbl 2)) (Some (Dbl 5)) sampleEngine)) = Dbl 0"
  "e_speed (tick64 (Dbl 0) (spin64 r (Some (Dbl 2)) (Some (Dbl 5)) sampleEngine)) = Dbl 1500"
  "e_accel (tick64 (Dbl 0) (spin64 r (Some (Dbl 2)) (Some (Dbl 5)) sampleEngine)) = Dbl (4886718345671111 / 17592186044416)"
  "e_spinT (tick64 (Dbl 0) (spin64 r (Some (Dbl 2)) (Some (Dbl 5)) sampleEngine)) = Dbl (3039929748475085 / 562949953421312)"
  "e_spinDist (tick64 (Dbl 0) (spin64 r (Some (Dbl 2)) (Some (Dbl 5)) sampleEngine)) = Dbl 4050"
proof -
  let ?S = "spin64 r (Some (Dbl 2)) (Some (Dbl 5)) sampleEngine"
  have le: "d_le (Dbl 0) (e_spinT ?S)" by (simp add: five_turns d_le_def)
  have z: "spinOffset64 (Dbl 1500) (Dbl (4886718345671111 / 17592186044416)) (Dbl 0) = Dbl 0"
    by (rule spinOffset64_zero [OF _ half_a]) simp_all
  note fr = first_frame64 [OF spin64_fields(5) spin64_fields(6) le, of 0]
  show "e_mode (tick64 (Dbl 0) ?S) = Spin" by (rule fr(1))
  show "e_spinStart (tick64 (Dbl 0) ?S) = Some (Dbl 0)" by (rule fr(2))
  show "e_offset (tick64 (Dbl 0) ?S) = Dbl 0" using fr(3) z by (simp add: five_turns)
  show "e_speed (tick64 (Dbl 0) ?S) = Dbl 1500" using fr(4) by (simp add: five_turns)
  show "e_accel (tick64 (Dbl 0) ?S) = Dbl (4886718345671111 / 17592186044416)" using fr(5) by (simp add: five_turns)
  show "e_spinT (tick64 (Dbl 0) ?S) = Dbl (3039929748475085 / 562949953421312)" using fr(6) by (simp add: five_turns)
  show "e_spinDist (tick64 (Dbl 0) ?S) = Dbl 4050" using fr(7) by (simp add: five_turns)
qed

lemma five_turns_elapsed:
  "elapsed64 (Dbl 5400) (Dbl 0) = Dbl (3039929748475085 / 562949953421312)"
  "elapsed64 (Dbl (176947199 / 32768)) (Dbl 0) = Dbl (6079859462590431 / 1125899906842624)"
  "elapsed64 (Dbl (353894399 / 65536)) (Dbl 0) = Dbl (1519964869942575 / 281474976710656)"
  by (simp_all add: elapsed64_def ts_t1_a ts_t2_a ts_t3_a el_t1_a el_t2_a el_t3_a)

lemma five_turns_offsets:
  "spinOffset64 (Dbl 1500) (Dbl (4886718345671111 / 17592186044416)) (Dbl (3039929748475085 / 562949953421312)) = Dbl (8906044184985601 / 2199023255552)"
  "spinOffset64 (Dbl 1500) (Dbl (4886718345671111 / 17592186044416)) (Dbl (6079859462590431 / 1125899906842624)) = Dbl (8906044184985601 / 2199023255552)"
  "spinOffset64 (Dbl 1500) (Dbl (4886718345671111 / 17592186044416)) (Dbl (1519964869942575 / 281474976710656)) = Dbl 4050"
  by (simp_all add: spinOffset64_def half_a p_t1_a q1_t1_a q_t1_a x_t1_a
        p_t2_a q1_t2_a q_t2_a x_t2_a p_t3_a q1_t3_a q_t3_a x_t3_a)

lemma sum5: "d_add (Dbl 0) (Dbl 5) = Dbl 5"
proof -
  have "fl (0 + 5) = Dbl (of_int 5629499534213120 * pow2 (2 - 52))"
    by (rule fl_eval) (simp_all add: pow2_def round_even_def Let_def)
  then show ?thesis by (simp add: d_add_fin pow2_def)
qed

lemma scaled_round_ge:
  assumes "0 < u" "of_int lo * u \<le> x"
  shows "of_int lo * u \<le> of_int (round_even (x / u)) * u"
proof -
  have "of_int lo \<le> x / u" using assms by (simp add: field_simps)
  then have "lo \<le> round_even (x / u)" by (rule round_even_ge)
  then have "(of_int lo :: real) \<le> of_int (round_even (x / u))" by simp
  then show ?thesis using assms(1) by (simp only: mult_le_cancel_right_pos)
qed

lemma scaled_round_le:
  assumes "0 < u" "x \<le> of_int hi * u"
  shows "of_int (round_even (x / u)) * u \<le> of_int hi * u"
proof -
  have "x / u \<le> of_int hi" using assms by (simp add: field_simps)
  then have "round_even (x / u) \<le> hi" by (rule round_even_le)
  then have "(of_int (round_even (x / u)) :: real) \<le> of_int hi" by simp
  then show ?thesis using assms(1) by (simp only: mult_le_cancel_right_pos)
qed

text \<open>Rounding never takes a positive real below a power of two under it, and never to
  infinity from below \<^term>\<open>pow2 1023\<close>.\<close>

lemma fl_ge_pow2:
  assumes "pow2 k \<le> x" "- 1074 \<le> k"
  shows "fl x = PlusInf \<or> (\<exists>y. fl x = Dbl y \<and> pow2 k \<le> y)"
proof -
  have x: "0 < x" using assms(1) pow2_pos [of k] by linarith
  define e where "e = max (expo x) (- 1022)"
  define u where "u = pow2 (e - 52)"
  define r where "r = of_int (round_even (x / u)) * u"
  have u: "0 < u" by (simp add: u_def)
  have "pow2 k \<le> r"
  proof (cases "- 1022 \<le> expo x")
    case True
    then have e: "e = expo x" by (simp add: e_def)
    have "x < pow2 (expo x + 1)" by (rule expo_bounds(2) [OF x])
    then have "pow2 k < pow2 (expo x + 1)" using assms(1) by linarith
    then have "k < expo x + 1" by (simp only: pow2_less_cancel)
    then have ke: "pow2 k \<le> pow2 e" using e by (intro pow2_mono) simp
    have "pow2 e \<le> x" using expo_bounds(1) [OF x] e by simp
    then have "of_int (2 ^ 52) * u \<le> x" unfolding u_def by (simp only: pow2_52 [symmetric])
    then have "of_int (2 ^ 52) * u \<le> r"
      unfolding r_def by (rule scaled_round_ge [OF u])
    then have "pow2 e \<le> r" unfolding u_def by (simp only: pow2_52 [symmetric])
    then show ?thesis using ke by linarith
  next
    case False
    then have e: "e = - 1022" by (simp add: e_def)
    have "0 \<le> k + 1074" using assms(2) by simp
    have "pow2 k = pow2 (k + 1074) * pow2 (- 1074)"
      by (simp add: pow2_add [symmetric])
    also have "pow2 (k + 1074) = of_int (2 ^ nat (k + 1074))"
      using assms(2) by (simp add: pow2_def)
    finally have pk: "pow2 k = of_int (2 ^ nat (k + 1074)) * u" by (simp add: u_def e)
    then have "of_int (2 ^ nat (k + 1074)) * u \<le> x" using assms(1) by simp
    then have "of_int (2 ^ nat (k + 1074)) * u \<le> r"
      unfolding r_def by (rule scaled_round_ge [OF u])
    then show ?thesis using pk by simp
  qed
  moreover have "0 < pow2 k" by simp
  ultimately have r: "pow2 k \<le> r" "r \<noteq> 0" by linarith+
  show ?thesis
    using r unfolding r_def u_def e_def
    by (simp add: fl_pos_unfold [OF x] Let_def)
qed

lemma fl_nonneg_finite:
  assumes "0 < x" "x < pow2 1023"
  shows "\<exists>y. fl x = Dbl y \<and> 0 \<le> y"
proof -
  define e where "e = max (expo x) (- 1022)"
  define u where "u = pow2 (e - 52)"
  define r where "r = of_int (round_even (x / u)) * u"
  have u: "0 < u" by (simp add: u_def)
  have "pow2 (expo x) \<le> x" by (rule expo_bounds(1) [OF assms(1)])
  then have "pow2 (expo x) < pow2 1023" using assms(2) by linarith
  then have "expo x < 1023" by (simp only: pow2_less_cancel)
  then have e1: "e \<le> 1022" by (simp add: e_def)
  have "x < pow2 (expo x + 1)" by (rule expo_bounds(2) [OF assms(1)])
  also have "\<dots> \<le> pow2 (e + 1)" by (intro pow2_mono) (simp add: e_def)
  finally have "x \<le> of_int (2 ^ 53) * u" unfolding u_def by (simp only: pow2_53 [symmetric])
  then have "r \<le> of_int (2 ^ 53) * u"
    unfolding r_def by (rule scaled_round_le [OF u])
  then have r1: "r \<le> pow2 (e + 1)"
    unfolding u_def by (simp only: pow2_53 [symmetric])
  have "of_int 0 * u \<le> x" using assms(1) by simp
  then have "of_int 0 * u \<le> r"
    unfolding r_def by (rule scaled_round_ge [OF u])
  then have r0: "0 \<le> r" by simp
  note r1
  moreover have "pow2 (e + 1) \<le> pow2 1023" using e1 by (intro pow2_mono) simp
  moreover have "pow2 1023 < pow2 1024" by (rule pow2_strict_mono) simp
  ultimately have "\<not> pow2 1024 \<le> r" by linarith
  then show ?thesis
    using r0 unfolding r_def u_def e_def
    by (simp add: fl_pos_unfold [OF assms(1)] Let_def)
qed

text \<open>The sample spin of six rotations to item 2.\<close>

lemma six_turns:
  "e_spinDist (spin64 r (Some (Dbl 2)) (Some (Dbl 6)) sampleEngine) = Dbl 4800"
  "e_accel (spin64 r (Some (Dbl 2)) (Some (Dbl 6)) sampleEngine) = Dbl (1875 / 8)"
  "e_spinT (spin64 r (Some (Dbl 2)) (Some (Dbl 6)) sampleEngine) = Dbl (3602879701896397 / 562949953421312)"
  "e_speed (spin64 r (Some (Dbl 2)) (Some (Dbl 6)) sampleEngine) = Dbl 1500"
proof -
  let ?S = "spin64 r (Some (Dbl 2)) (Some (Dbl 6)) sampleEngine"
  have f: "e_items sampleEngine = [''A'', ''B'', ''C'', ''D'', ''E'']"
    "e_lineHeight sampleEngine = Dbl 150" "e_speed sampleEngine = Dbl 1500"
    by (simp_all add: sampleEngine_def)
  show d: "e_spinDist ?S = Dbl 4800"
    by (simp add: spin64_fields(2) sample_target64 f of_len64_def cycle_a rotcycle_b tgtlh_a dist_b)
  show a: "e_accel ?S = Dbl (1875 / 8)"
    by (simp add: spin64_fields(3) d f vsq_a twod_b accel_b)
  show "e_spinT ?S = Dbl (3602879701896397 / 562949953421312)"
    by (simp add: spin64_fields(4) a f dur_b)
  show "e_speed ?S = Dbl 1500" by (simp add: spin64_fields(7) f)
qed

lemma six_turns_start:
  "e_mode (tick64 (Dbl 0) (spin64 r (Some (Dbl 2)) (Some (Dbl 6)) sampleEngine)) = Spin"
  "e_spinStart (tick64 (Dbl 0) (spin64 r (Some (Dbl 2)) (Some (Dbl 6)) sampleEngine)) = Some (Dbl 0)"
  "e_offset (tick64 (Dbl 0) (spin64 r (Some (Dbl 2)) (Some (Dbl 6)) sampleEngine)) = Dbl 0"
  "e_speed (tick64 (Dbl 0) (spin64 r (Some (Dbl 2)) (Some (Dbl 6)) sampleEngine)) = Dbl 1500"
  "e_accel (tick64 (Dbl 0) (spin64 r (Some (Dbl 2)) (Some (Dbl 6)) sampleEngine)) = Dbl (1875 / 8)"
  "e_spinT (tick64 (Dbl 0) (spin64 r (Some (Dbl 2)) (Some (Dbl 6)) sampleEngine)) = Dbl (3602879701896397 / 562949953421312)"
  "e_spinDist (tick64 (Dbl 0) (spin64 r (Some (Dbl 2)) (Some (Dbl 6)) sampleEngine)) = Dbl 4800"
proof -
  let ?S = "spin64 r (Some (Dbl 2)) (Some (Dbl 6)) sampleEngine"
  have le: "d_le (Dbl 0) (e_spinT ?S)" by (simp add: six_turns d_le_def)
  have z: "spinOffset64 (Dbl 1500) (Dbl (1875 / 8)) (Dbl 0) = Dbl 0"
    by (rule spinOffset64_zero [OF _ half_b]) simp_all
  note fr = first_frame64 [OF spin64_fields(5) spin64_fields(6) le, of 0]
  show "e_mode (tick64 (Dbl 0) ?S) = Spin" by (rule fr(1))
  show "e_spinStart (tick64 (Dbl 0) ?S) = Some (Dbl 0)" by (rule fr(2))
  show "e_offset (tick64 (Dbl 0) ?S) = Dbl 0" using fr(3) z by (simp add: six_turns)
  show "e_speed (tick64 (Dbl 0) ?S) = Dbl 1500" using fr(4) by (simp add: six_turns)
  show "e_accel (tick64 (Dbl 0) ?S) = Dbl (1875 / 8)" using fr(5) by (simp add: six_turns)
  show "e_spinT (tick64 (Dbl 0) ?S) = Dbl (3602879701896397 / 562949953421312)" using fr(6) by (simp add: six_turns)
  show "e_spinDist (tick64 (Dbl 0) ?S) = Dbl 4800" using fr(7) by (simp add: six_turns)
qed

lemma six_turns_elapsed:
  "elapsed64 (Dbl 6400) (Dbl 0) = Dbl (3602879701896397 / 562949953421312)"
  "elapsed64 (Dbl 6401) (Dbl 0) = Dbl (1801721325924909 / 281474976710656)"
  by (simp_all add: elapsed64_def ts_t1_b ts_t2_b el_t1_b el_t2_b)

lemma six_turns_offset:
  "spinOffset64 (Dbl 1500) (Dbl (1875 / 8)) (Dbl (3602879701896397 / 562949953421312)) = Dbl 4800"
  by (simp add: spinOffset64_def half_b p_t1_b q1_t1_b q_t1_b x_t1_b)

lemma six_turns_frames:
  "e_mode (ticks64 [Dbl 0, Dbl 6400]
            (spin64 r (Some (Dbl 2)) (Some (Dbl 6)) sampleEngine)) = Spin"
  "e_offset (ticks64 [Dbl 0, Dbl 6400]
            (spin64 r (Some (Dbl 2)) (Some (Dbl 6)) sampleEngine)) = Dbl 4800"
  "e_mode (ticks64 [Dbl 0, Dbl 6400, Dbl 6401]
            (spin64 r (Some (Dbl 2)) (Some (Dbl 6)) sampleEngine)) = Pause"
  "e_offset (ticks64 [Dbl 0, Dbl 6400, Dbl 6401]
            (spin64 r (Some (Dbl 2)) (Some (Dbl 6)) sampleEngine)) = Dbl 4800"
proof -
  let ?S = "spin64 r (Some (Dbl 2)) (Some (Dbl 6)) sampleEngine"
  note st = six_turns_start [of r]
  have le1: "d_le (elapsed64 (Dbl 6400) (Dbl 0)) (e_spinT (tick64 (Dbl 0) ?S))"
    by (simp add: st six_turns_elapsed d_le_def)
  note f1 = running_frame64 [OF st(1) st(2) le1]
  show "e_mode (ticks64 [Dbl 0, Dbl 6400] ?S) = Spin" using f1(1) by simp
  show "e_offset (ticks64 [Dbl 0, Dbl 6400] ?S) = Dbl 4800"
    using f1(3) by (simp add: st six_turns_elapsed six_turns_offset)
  have gt: "\<not> d_le (elapsed64 (Dbl 6401) (Dbl 0))
               (e_spinT (tick64 (Dbl 6400) (tick64 (Dbl 0) ?S)))"
    using f1(6) by (simp add: st six_turns_elapsed d_le_def)
  note f2 = stopping_frame64 [OF f1(1) f1(2) gt]
  show "e_mode (ticks64 [Dbl 0, Dbl 6400, Dbl 6401] ?S) = Pause" using f2(1) by simp
  show "e_offset (ticks64 [Dbl 0, Dbl 6400, Dbl 6401] ?S) = Dbl 4800"
    using f2(2) f1(7) by (simp add: st)
qed

text \<open>A spin over distance zero.\<close>

lemma pow2_nonneg [simp]: "0 \<le> pow2 e"
  using pow2_pos [of e] by (simp only: less_imp_le)

lemma d_mul_zero_left:
  assumes "0 \<le> c"
  shows "d_mul (Dbl 0) (Dbl c) = Dbl 0"
  using assms by (simp add: d_mul_def signed_zero_def)

lemma d_mul_zero_right:
  assumes "0 \<le> c"
  shows "d_mul (Dbl c) (Dbl 0) = Dbl 0"
  using assms by (simp add: d_mul_def signed_zero_def)

lemma d_mul_nonneg:
  assumes "0 \<le> a" "0 \<le> b" "a * b < pow2 1023"
  shows "\<exists>c. d_mul (Dbl a) (Dbl b) = Dbl c \<and> 0 \<le> c"
proof (cases "a = 0 \<or> b = 0")
  case True
  then show ?thesis using assms by (auto simp add: d_mul_def signed_zero_def)
next
  case False
  then have "0 < a * b" using assms by simp
  from fl_nonneg_finite [OF this assms(3)] False show ?thesis by (simp add: d_mul_fin)
qed

lemma d_mul_square_pos:
  assumes "pow2 (- 537) \<le> v"
  shows "d_mul (Dbl v) (Dbl v) = PlusInf \<or> (\<exists>y. d_mul (Dbl v) (Dbl v) = Dbl y \<and> 0 < y)"
proof -
  have v: "0 < v" using assms pow2_pos [of "- 537"] by linarith
  have "pow2 (- 1074) = pow2 (- 537) * pow2 (- 537)" by (simp add: pow2_add [symmetric])
  also have "\<dots> \<le> v * v" using assms v by (intro mult_mono) simp_all
  finally have "fl (v * v) = PlusInf \<or> (\<exists>y. fl (v * v) = Dbl y \<and> pow2 (- 1074) \<le> y)"
    by (rule fl_ge_pow2) simp
  moreover have "0 < y" if "pow2 (- 1074) \<le> y" for y
    using that pow2_pos [of "- 1074"] by linarith
  ultimately show ?thesis using v by (auto simp add: d_mul_fin)
qed

lemma elapsed64_pos:
  assumes "t0 + pow2 (- 1000) \<le> t1"
  shows "elapsed64 (Dbl t1) (Dbl t0) = PlusInf \<or>
         (\<exists>y. elapsed64 (Dbl t1) (Dbl t0) = Dbl y \<and> 0 < y)"
proof -
  have ne: "t1 \<noteq> t0" using assms pow2_pos [of "- 1000"] by linarith
  have "pow2 (- 1000) \<le> t1 - t0" using assms by simp
  then have "fl (t1 - t0) = PlusInf \<or> (\<exists>y. fl (t1 - t0) = Dbl y \<and> pow2 (- 1000) \<le> y)"
    by (rule fl_ge_pow2) simp
  then show ?thesis
  proof
    assume "fl (t1 - t0) = PlusInf"
    then show ?thesis using ne by (simp add: elapsed64_def d_sub_fin d_div_def signed_inf_def)
  next
    assume "\<exists>y. fl (t1 - t0) = Dbl y \<and> pow2 (- 1000) \<le> y"
    then obtain y where y: "fl (t1 - t0) = Dbl y" "pow2 (- 1000) \<le> y" by blast
    have y0: "0 < y" using y(2) pow2_pos [of "- 1000"] by linarith
    have "pow2 (- 1010) = pow2 (- 1000) / 1024"
      using pow2_split [of "- 1000" 10] by (simp add: pow2_def)
    also have "\<dots> \<le> y / 1000" using y(2) y0 by linarith
    finally have "fl (y / 1000) = PlusInf \<or> (\<exists>z. fl (y / 1000) = Dbl z \<and> pow2 (- 1010) \<le> z)"
      by (rule fl_ge_pow2) simp
    moreover have "0 < z" if "pow2 (- 1010) \<le> z" for z
      using that pow2_pos [of "- 1010"] by linarith
    ultimately show ?thesis
      using ne y(1) y0 by (auto simp add: elapsed64_def d_sub_fin d_div_fin)
  qed
qed

text \<open>Rounding a negative real.\<close>

lemma fl_minus:
  assumes "0 < x"
  shows "fl (- x) = d_neg (fl x)"
proof -
  define r where "r = of_int (round_even (x / pow2 (max (expo x) (- 1022) - 52)))
                        * pow2 (max (expo x) (- 1022) - 52)"
  have "fl x = (if pow2 1024 \<le> r then PlusInf else if r = 0 then Dbl 0 else Dbl r)"
    unfolding r_def using assms by (simp add: fl_def Let_def)
  moreover have "fl (- x) = (if pow2 1024 \<le> r then MinusInf else if r = 0 then MinusZero
                             else Dbl (- r))"
    unfolding r_def using assms by (simp add: fl_def Let_def)
  ultimately show ?thesis by simp
qed

lemma fl_le_pow2:
  assumes "0 < x" "x \<le> pow2 k" "- 1074 \<le> k" "k \<le> 1023"
  shows "\<exists>y. fl x = Dbl y \<and> 0 \<le> y \<and> y \<le> pow2 k"
proof -
  define e where "e = max (expo x) (- 1022)"
  define u where "u = pow2 (e - 52)"
  define r where "r = of_int (round_even (x / u)) * u"
  have u: "0 < u" by (simp add: u_def)
  have "pow2 (expo x) \<le> x" by (rule expo_bounds(1) [OF assms(1)])
  then have "pow2 (expo x) < pow2 (k + 1)"
    using assms(2) pow2_strict_mono [of k "k + 1"] by simp
  then have "expo x < k + 1" by (simp only: pow2_less_cancel)
  then have ek: "e - 52 \<le> k" using assms(3) by (simp add: e_def)
  have "pow2 k = pow2 (k - (e - 52)) * pow2 (e - 52)" by (simp add: pow2_add [symmetric])
  also have "pow2 (k - (e - 52)) = of_int (2 ^ nat (k - (e - 52)))"
    using ek by (simp add: pow2_def)
  finally have pk: "pow2 k = of_int (2 ^ nat (k - (e - 52))) * u" by (simp add: u_def)
  then have "x \<le> of_int (2 ^ nat (k - (e - 52))) * u" using assms(2) by simp
  then have "r \<le> of_int (2 ^ nat (k - (e - 52))) * u"
    unfolding r_def by (rule scaled_round_le [OF u])
  then have r1: "r \<le> pow2 k" using pk by simp
  have "of_int 0 * u \<le> x" using assms(1) by simp
  then have "of_int 0 * u \<le> r"
    unfolding r_def by (rule scaled_round_ge [OF u])
  then have r0: "0 \<le> r" by simp
  have "pow2 k \<le> pow2 1023" using assms(4) by (intro pow2_mono)
  moreover have "pow2 1023 < pow2 1024" by (rule pow2_strict_mono) simp
  ultimately have "\<not> pow2 1024 \<le> r" using r1 by linarith
  then show ?thesis
    using r0 r1 unfolding r_def u_def e_def
    by (simp add: fl_pos_unfold [OF assms(1)] Let_def)
qed

lemma fl_neg_le:
  assumes "pow2 k \<le> - x" "- 1074 \<le> k"
  shows "fl x = MinusInf \<or> (\<exists>y. fl x = Dbl y \<and> y < 0)"
proof -
  have x: "0 < - x" using assms(1) pow2_pos [of k] by linarith
  have n: "fl x = d_neg (fl (- x))" using fl_minus [OF x] by simp
  have "fl (- x) = PlusInf \<or> (\<exists>y. fl (- x) = Dbl y \<and> pow2 k \<le> y)"
    using assms by (rule fl_ge_pow2)
  then show ?thesis
  proof
    assume "fl (- x) = PlusInf"
    then show ?thesis using n by simp
  next
    assume "\<exists>y. fl (- x) = Dbl y \<and> pow2 k \<le> y"
    then obtain y where y: "fl (- x) = Dbl y" "pow2 k \<le> y" by blast
    have "0 < y" using y(2) pow2_pos [of k] by linarith
    then have "fl x = Dbl (- y)" "- y < 0" using n y(1) by simp_all
    then show ?thesis by blast
  qed
qed

text \<open>A spin while the speed is zero or negative.\<close>

lemma zero_over_zero: "d_div (Dbl 0) (d_div (Dbl 0) x) = NotANumber"
  by (cases x) (simp_all add: d_div_def signed_zero_def)

lemma zero_speed_spin64:
  assumes "e_speed s = Dbl 0"
  shows "e_spinT (spin64 r target rots s) = NotANumber"
    and "e_offset (ticks64 [Dbl t0] (spin64 r target rots s)) = e_spinDist (spin64 r target rots s)"
    and "e_mode (ticks64 [Dbl t0] (spin64 r target rots s)) = Pause"
proof -
  let ?S = "spin64 r target rots s"
  have z: "d_mul (Dbl 0) (Dbl 0) = Dbl 0" by (simp add: d_mul_zero_left)
  show T: "e_spinT ?S = NotANumber"
    by (simp add: spin64_fields(4) spin64_fields(3) assms z zero_over_zero)
  have step: "spinStep64 (Dbl t0) ?S =
     ?S\<lparr>e_spinStart := Some (Dbl t0), e_offset := e_spinDist ?S, e_mode := Pause,
         e_pauseStart := Some (Dbl t0)\<rparr>"
    by (simp add: spinStep64_first [OF spin64_fields(6)] T d_le_def)
  show "e_offset (ticks64 [Dbl t0] ?S) = e_spinDist ?S"
    by (simp add: tick64_in_spin(1) [OF spin64_fields(5)] step)
  show "e_mode (ticks64 [Dbl t0] ?S) = Pause"
    by (simp add: tick64_in_spin(2) [OF spin64_fields(5)] step)
qed

lemma negative_duration:
  assumes "pow2 (- 250) \<le> - v0" "- v0 \<le> pow2 250" "pow2 (- 250) \<le> D"
  shows "\<not> d_le (Dbl 0)
            (d_div (Dbl v0) (d_div (d_mul (Dbl v0) (Dbl v0)) (d_mul (Dbl 2) (Dbl D))))"
proof -
  have v: "v0 < 0" using assms(1) pow2_pos [of "- 250"] by linarith
  have D: "0 < D" using assms(3) pow2_pos [of "- 250"] by linarith
  have "v0 * v0 = (- v0) * (- v0)" by simp
  also have "\<dots> \<le> pow2 250 * pow2 250"
    using assms(2) v by (intro mult_mono) simp_all
  also have "\<dots> = pow2 500" by (simp add: pow2_add [symmetric])
  finally have "v0 * v0 \<le> pow2 500" .
  moreover have "0 < v0 * v0" using v by (simp add: mult_neg_neg)
  ultimately obtain sq where sq: "fl (v0 * v0) = Dbl sq" "0 \<le> sq" "sq \<le> pow2 500"
    using fl_le_pow2 [of "v0 * v0" 500] by auto
  have m: "d_mul (Dbl v0) (Dbl v0) = Dbl sq" using v sq(1) by (simp add: d_mul_fin)
  have "pow2 (- 249) = 2 * pow2 (- 250)"
    using pow2_split [of "- 249" 1] by (simp add: pow2_def)
  also have "\<dots> \<le> 2 * D" using assms(3) by simp
  finally have "fl (2 * D) = PlusInf \<or> (\<exists>y. fl (2 * D) = Dbl y \<and> pow2 (- 249) \<le> y)"
    by (rule fl_ge_pow2) simp
  then have d: "d_mul (Dbl 2) (Dbl D) = PlusInf \<or>
                (\<exists>y. d_mul (Dbl 2) (Dbl D) = Dbl y \<and> pow2 (- 249) \<le> y)"
    using D by (simp add: d_mul_fin)
  have zero: "\<not> d_le (Dbl 0) (d_div (Dbl v0) (Dbl 0))"
    using v by (simp add: d_div_def signed_inf_def d_le_def)
  show ?thesis
  proof (cases "d_mul (Dbl 2) (Dbl D) = PlusInf")
    case True
    have "d_div (Dbl sq) PlusInf = Dbl 0"
      using sq(2) by (simp add: d_div_def signed_zero_def)
    then show ?thesis using zero by (simp add: m True)
  next
    case False
    with d obtain y where y: "d_mul (Dbl 2) (Dbl D) = Dbl y" "pow2 (- 249) \<le> y" by blast
    have y0: "0 < y" using y(2) pow2_pos [of "- 249"] by linarith
    show ?thesis
    proof (cases "sq = 0")
      case True
      have "d_div (Dbl 0) (Dbl y) = Dbl 0"
        using y0 by (simp add: d_div_def signed_zero_def)
      then show ?thesis using zero by (simp add: m y(1) True)
    next
      case False
      then have sq0: "0 < sq" using sq(2) by simp
      have "sq / y \<le> pow2 500 / pow2 (- 249)"
        using sq(3) y(2) sq0 by (intro frac_le) simp_all
      also have "\<dots> = pow2 749" by (simp add: pow2_diff [symmetric])
      finally have "sq / y \<le> pow2 749" .
      moreover have "0 < sq / y" using sq0 y0 by simp
      ultimately obtain a where a: "fl (sq / y) = Dbl a" "0 \<le> a" "a \<le> pow2 749"
        using fl_le_pow2 [of "sq / y" 749] by auto
      have q: "d_div (Dbl sq) (Dbl y) = Dbl a"
        using sq0 y0 a(1) by (simp add: d_div_fin)
      show ?thesis
      proof (cases "a = 0")
        case True
        then show ?thesis using zero by (simp add: m y(1) q)
      next
        case False
        then have a0: "0 < a" using a(2) by simp
        have "pow2 (- 999) = pow2 (- 250) / pow2 749" by (simp add: pow2_diff [symmetric])
        also have "\<dots> \<le> (- v0) / a"
          using assms(1) a(3) a0 v by (intro frac_le) simp_all
        finally have "pow2 (- 999) \<le> - (v0 / a)" by simp
        then have "fl (v0 / a) = MinusInf \<or> (\<exists>z. fl (v0 / a) = Dbl z \<and> z < 0)"
          by (rule fl_neg_le) simp
        then have "\<not> d_le (Dbl 0) (fl (v0 / a))" by (auto simp add: d_le_def)
        then show ?thesis using v a0 by (simp add: m y(1) q d_div_fin)
      qed
    qed
  qed
qed

lemma negative_speed_spin64:
  assumes "e_speed s = Dbl v0" "pow2 (- 250) \<le> - v0" "- v0 \<le> pow2 250"
    and "e_spinDist (spin64 r target rots s) = Dbl D" "pow2 (- 250) \<le> D"
  shows "e_offset (ticks64 [Dbl t0] (spin64 r target rots s)) = Dbl D"
    and "e_mode (ticks64 [Dbl t0] (spin64 r target rots s)) = Pause"
proof -
  let ?S = "spin64 r target rots s"
  have T: "\<not> d_le (Dbl 0) (e_spinT ?S)"
    using negative_duration [OF assms(2,3,5)]
    by (simp add: spin64_fields(4) spin64_fields(3) assms(1,4))
  have step: "spinStep64 (Dbl t0) ?S =
     ?S\<lparr>e_spinStart := Some (Dbl t0), e_offset := e_spinDist ?S, e_mode := Pause,
         e_pauseStart := Some (Dbl t0)\<rparr>"
    using T by (simp add: spinStep64_first [OF spin64_fields(6)])
  show "e_offset (ticks64 [Dbl t0] ?S) = Dbl D"
    by (simp add: tick64_in_spin(1) [OF spin64_fields(5)] step assms(4))
  show "e_mode (ticks64 [Dbl t0] ?S) = Pause"
    by (simp add: tick64_in_spin(2) [OF spin64_fields(5)] step)
qed


section \<open>Accuracy of the operations\<close>

lemma near_refl: "near 0 x x"
  by (simp add: near_def)

lemma near_pos:
  assumes "near k x y" "0 < x" "0 \<le> k" "k \<le> 1000"
  shows "0 < y"
proof -
  have "k / 2 ^ 53 \<le> 1000 / 2 ^ 53" using assms(4) by (simp add: divide_right_mono)
  then have "(0::real) < 1 - k / 2 ^ 53" by simp
  then have "0 < (1 - k / 2 ^ 53) * x" using assms(2) by simp
  then show ?thesis using assms(1) by (simp add: near_def)
qed

lemma near_mono:
  assumes "near j x y" "j \<le> k" "0 \<le> x"
  shows "near k x y"
proof -
  have "j / 2 ^ 53 \<le> k / 2 ^ 53" using assms(2) by (simp add: divide_right_mono)
  then have "(1 - k / 2 ^ 53) * x \<le> (1 - j / 2 ^ 53) * x"
    and "(1 + j / 2 ^ 53) * x \<le> (1 + k / 2 ^ 53) * x"
    using assms(3) by (simp_all add: mult_right_mono)
  then show ?thesis using assms(1) by (simp add: near_def)
qed

lemma near_scale:
  assumes "near k x y" "0 \<le> c"
  shows "near k (x * c) (y * c)"
proof -
  from assms have "(1 - k / 2 ^ 53) * x * c \<le> y * c" "y * c \<le> (1 + k / 2 ^ 53) * x * c"
    by (simp_all add: near_def mult_right_mono)
  then show ?thesis by (simp add: near_def mult.assoc)
qed

lemma small_product:
  assumes "0 \<le> j" "j \<le> 1000" "0 \<le> k" "k \<le> 1000"
  shows "(j / 2 ^ 53) * (k / 2 ^ 53) \<le> (1 / 2 ^ 53 :: real) / 4"
proof -
  have "(j / 2 ^ 53) * (k / 2 ^ 53) \<le> (1000 / 2 ^ 53) * (1000 / 2 ^ 53)"
    using assms by (intro mult_mono) (simp_all add: divide_right_mono)
  also have "\<dots> \<le> (1 / 2 ^ 53 :: real) / 4" by simp
  finally show ?thesis .
qed

lemma near_trans:
  assumes "near j x y" "near k y z" "0 < x" "0 \<le> j" "j \<le> 1000" "0 \<le> k" "k \<le> 1000"
  shows "near (j + k + 1) x z"
proof -
  define a where "a = j / 2 ^ 53"
  define b where "b = k / 2 ^ 53"
  have a: "0 \<le> a" "a \<le> 1000 / 2 ^ 53" using assms(4,5) by (simp_all add: a_def divide_right_mono)
  have b: "0 \<le> b" "b \<le> 1000 / 2 ^ 53" using assms(6,7) by (simp_all add: b_def divide_right_mono)
  have "a * b \<le> (1 / 2 ^ 53) / 4" unfolding a_def b_def by (rule small_product [OF assms(4-7)])
  then have ab: "a * b \<le> 1 / 2 ^ 53" by simp
  have ab0: "0 \<le> a * b" using a b by simp
  have y: "(1 - a) * x \<le> y" "y \<le> (1 + a) * x" using assms(1) by (simp_all add: near_def a_def)
  have z: "(1 - b) * y \<le> z" "z \<le> (1 + b) * y" using assms(2) by (simp_all add: near_def b_def)
  have b1: "0 \<le> 1 - b" "0 \<le> 1 + b" using b by simp_all
  have "z \<le> (1 + b) * ((1 + a) * x)"
    using z(2) y(2) b1(2) mult_left_mono [of y "(1 + a) * x" "1 + b"] by linarith
  also have "\<dots> = (1 + a + b + a * b) * x" by (simp add: algebra_simps)
  also have "\<dots> \<le> (1 + a + b + 1 / 2 ^ 53) * x"
    using ab assms(3) by (intro mult_right_mono) simp_all
  finally have up: "z \<le> (1 + (j + k + 1) / 2 ^ 53) * x"
    by (simp add: a_def b_def add_divide_distrib)
  have "(1 - a - b - 1 / 2 ^ 53) * x \<le> (1 - a - b + a * b) * x"
    using ab0 assms(3) by (intro mult_right_mono) simp_all
  also have "\<dots> = (1 - b) * ((1 - a) * x)" by (simp add: algebra_simps)
  also have "\<dots> \<le> z"
    using z(1) y(1) b1(1) mult_left_mono [of "(1 - a) * x" y "1 - b"] by linarith
  finally have lo: "(1 - (j + k + 1) / 2 ^ 53) * x \<le> z"
    by (simp add: a_def b_def add_divide_distrib algebra_simps)
  show ?thesis using lo up by (simp add: near_def)
qed

lemma near_div:
  assumes "near k x y" "0 < x" "0 < c" "0 \<le> k" "k \<le> 1000"
  shows "near (k + 1) (c / x) (c / y)"
proof -
  define b where "b = k / 2 ^ 53"
  define eps where "eps = (1 / 2 ^ 53 :: real)"
  have b: "0 \<le> b" "b \<le> 1000 / 2 ^ 53" using assms(4,5) by (simp_all add: b_def divide_right_mono)
  have y: "(1 - b) * x \<le> y" "y \<le> (1 + b) * x" using assms(1) by (simp_all add: near_def b_def)
  have y0: "0 < y" by (rule near_pos [OF assms(1,2,4,5)])
  have bb: "b * b \<le> eps / 4"
    unfolding b_def eps_def by (rule small_product [OF assms(4,5,4,5)])
  have "b * eps \<le> (1000 / 2 ^ 53) * eps"
    using b(2) by (intro mult_right_mono) (simp_all add: eps_def)
  also have "\<dots> \<le> eps / 4" by (simp add: eps_def)
  finally have be: "b * eps \<le> eps / 4" .
  have eps: "0 < eps" by (simp add: eps_def)
  have b1: "0 < 1 - b" "0 < 1 + b" using b by simp_all
  have x1: "0 < (1 - b) * x" using b1 assms(2) by simp
  have cx: "0 \<le> c / x" using assms(2,3) by simp
  have "c / y \<le> c / ((1 - b) * x)"
    using y(1) x1 assms(3) by (intro divide_left_mono) simp_all
  also have "\<dots> = (1 / (1 - b)) * (c / x)" by simp
  also have "\<dots> \<le> (1 + b + eps) * (c / x)"
  proof (rule mult_right_mono [OF _ cx])
    have "(1 + b + eps) * (1 - b) = 1 + eps - b * b - b * eps" by (simp add: algebra_simps)
    then have "1 \<le> (1 + b + eps) * (1 - b)" using bb be eps by linarith
    then show "1 / (1 - b) \<le> 1 + b + eps"
      using b1(1) by (simp add: pos_divide_le_eq)
  qed
  finally have up: "c / y \<le> (1 + (k + 1) / 2 ^ 53) * (c / x)"
    by (simp add: b_def eps_def add_divide_distrib)
  have "(1 - b - eps) * (c / x) \<le> (1 / (1 + b)) * (c / x)"
  proof (rule mult_right_mono [OF _ cx])
    have "(1 - b - eps) * (1 + b) = 1 - eps - b * b - b * eps" by (simp add: algebra_simps)
    moreover have "0 \<le> b * b" "0 \<le> b * eps" using b(1) eps by simp_all
    ultimately have "(1 - b - eps) * (1 + b) \<le> 1" using eps by linarith
    then show "1 - b - eps \<le> 1 / (1 + b)"
      using b1(2) by (simp add: pos_le_divide_eq)
  qed
  also have "\<dots> = c / ((1 + b) * x)" by simp
  also have "\<dots> \<le> c / y"
    using y(2) y0 assms(3) by (intro divide_left_mono) simp_all
  finally have lo: "(1 - (k + 1) / 2 ^ 53) * (c / x) \<le> c / y"
    by (simp add: b_def eps_def add_divide_distrib diff_diff_eq)
  show ?thesis using lo up by (simp add: near_def)
qed

lemma near_range:
  assumes "near k x y" "0 \<le> k" "k \<le> 1000" "pow2 i \<le> x" "x \<le> pow2 j"
  shows "pow2 (i - 1) \<le> y" and "y \<le> pow2 (j + 1)"
proof -
  have x: "0 < x" using assms(4) pow2_pos [of i] by linarith
  have k: "k / 2 ^ 53 \<le> 1000 / 2 ^ 53" using assms(3) by (simp add: divide_right_mono)
  have k0: "0 \<le> k / 2 ^ 53" using assms(2) by simp
  have h: "pow2 (i - 1) = pow2 i / 2" using pow2_split [of i 1] by (simp add: pow2_def)
  have d: "pow2 (j + 1) = 2 * pow2 j" using pow2_add [of j 1] by (simp add: pow2_def)
  have "1 / 2 * x \<le> (1 - k / 2 ^ 53) * x" using k x by (intro mult_right_mono) simp_all
  then show "pow2 (i - 1) \<le> y" using assms(1,4) h by (simp add: near_def)
  have "(1 + k / 2 ^ 53) * x \<le> 2 * x" using k x by (intro mult_right_mono) simp_all
  then show "y \<le> pow2 (j + 1)" using assms(1,5) d by (simp add: near_def)
qed

lemma mult_range:
  assumes "pow2 i \<le> a" "a \<le> pow2 j" "pow2 k \<le> b" "b \<le> pow2 l"
  shows "pow2 (i + k) \<le> a * b" and "a * b \<le> pow2 (j + l)"
proof -
  have a: "0 < a" using assms(1) pow2_pos [of i] by linarith
  have b: "0 < b" using assms(3) pow2_pos [of k] by linarith
  have "pow2 i * pow2 k \<le> a * b" using assms(1,3) a by (intro mult_mono) simp_all
  then show "pow2 (i + k) \<le> a * b" by (simp add: pow2_add)
  have "a * b \<le> pow2 j * pow2 l" using assms(2,4) a b by (intro mult_mono) simp_all
  then show "a * b \<le> pow2 (j + l)" by (simp add: pow2_add)
qed

lemma div_range:
  assumes "pow2 i \<le> a" "a \<le> pow2 j" "pow2 k \<le> b" "b \<le> pow2 l"
  shows "pow2 (i - l) \<le> a / b" and "a / b \<le> pow2 (j - k)"
proof -
  have a: "0 < a" using assms(1) pow2_pos [of i] by linarith
  have b: "0 < b" using assms(3) pow2_pos [of k] by linarith
  have "pow2 i / pow2 l \<le> a / b" using assms(1,4) a b by (intro frac_le) simp_all
  then show "pow2 (i - l) \<le> a / b" by (simp add: pow2_diff)
  have "a / b \<le> pow2 j / pow2 k" using assms(2,3) a b by (intro frac_le) simp_all
  then show "a / b \<le> pow2 (j - k)" by (simp add: pow2_diff)
qed

text \<open>A result in the normal range is rounded with a relative error of at most \<open>2\<^sup>-\<^sup>5\<^sup>3\<close>.\<close>

lemma fl_near:
  assumes "pow2 i \<le> x" "x \<le> pow2 j" "- 1022 \<le> i" "j \<le> 1022"
  shows "\<exists>y. fl x = Dbl y \<and> near 1 x y"
proof -
  have x: "0 < x" using assms(1) pow2_pos [of i] by linarith
  define e where "e = expo x"
  have lo: "pow2 e \<le> x" and hi: "x < pow2 (e + 1)"
    unfolding e_def by (rule expo_bounds(1) [OF x], rule expo_bounds(2) [OF x])
  have "pow2 i < pow2 (e + 1)" using assms(1) hi by linarith
  then have "i < e + 1" by (simp only: pow2_less_cancel)
  then have e1: "- 1022 \<le> e" using assms(3) by simp
  have "pow2 e < pow2 (j + 1)"
    using lo assms(2) pow2_strict_mono [of j "j + 1"] by simp
  then have "e < j + 1" by (simp only: pow2_less_cancel)
  then have e2: "e \<le> 1022" using assms(4) by simp
  define r where "r = of_int (round_even (x / pow2 (e - 52))) * pow2 (e - 52)"
  note n = fl_normal [OF x lo hi e1 e2]
  have f: "fl x = Dbl r" unfolding r_def by (rule n(1))
  have "\<bar>r - x\<bar> \<le> pow2 (e - 53)" unfolding r_def by (rule n(4))
  also have "pow2 (e - 53) = pow2 e / 2 ^ 53" using pow2_split [of e 53] by (simp add: pow2_def)
  also have "\<dots> \<le> x / 2 ^ 53" using lo by (simp add: divide_right_mono)
  finally have "\<bar>r - x\<bar> \<le> x / 2 ^ 53" .
  then have "x - x / 2 ^ 53 \<le> r" "r \<le> x + x / 2 ^ 53" by linarith+
  moreover have "(1 - 1 / 2 ^ 53) * x = x - x / 2 ^ 53" "(1 + 1 / 2 ^ 53) * x = x + x / 2 ^ 53"
    by (simp_all add: left_diff_distrib distrib_right)
  ultimately have "near 1 x r" by (simp only: near_def)
  then show ?thesis using f by blast
qed

lemma mul64:
  assumes "pow2 i \<le> a * b" "a * b \<le> pow2 j" "- 1022 \<le> i" "j \<le> 1022" "0 < a" "0 < b"
  shows "\<exists>y. d_mul (Dbl a) (Dbl b) = Dbl y \<and> near 1 (a * b) y"
  using fl_near [OF assms(1-4)] assms(5,6) by (simp add: d_mul_fin)

lemma div64:
  assumes "pow2 i \<le> a / b" "a / b \<le> pow2 j" "- 1022 \<le> i" "j \<le> 1022" "0 < a" "0 < b"
  shows "\<exists>y. d_div (Dbl a) (Dbl b) = Dbl y \<and> near 1 (a / b) y"
  using fl_near [OF assms(1-4)] assms(5,6) by (simp add: d_div_fin)

lemma sub64:
  assumes "pow2 i \<le> a - b" "a - b \<le> pow2 j" "- 1022 \<le> i" "j \<le> 1022"
  shows "\<exists>y. d_sub (Dbl a) (Dbl b) = Dbl y \<and> near 1 (a - b) y"
proof -
  have "a \<noteq> b" using assms(1) pow2_pos [of i] by linarith
  then show ?thesis using fl_near [OF assms] by (simp add: d_sub_fin)
qed


section \<open>Accuracy of a spin\<close>

lemma nearD:
  assumes "near k x y"
  shows "(1 - k * (1 / 2 ^ 53)) * x \<le> y" and "y \<le> (1 + k * (1 / 2 ^ 53)) * x"
  using assms by (simp_all add: near_def)

lemma near_abs:
  assumes "near 1 q T"
  shows "\<bar>T - q\<bar> \<le> q / 2 ^ 53"
proof -
  have "(1 - 1 / 2 ^ 53) * q = q - q / 2 ^ 53" "(1 + 1 / 2 ^ 53) * q = q + q / 2 ^ 53"
    by (simp_all add: left_diff_distrib distrib_right)
  then have "q - q / 2 ^ 53 \<le> T" "T \<le> q + q / 2 ^ 53"
    using assms by (simp_all only: near_def)
  then show ?thesis by linarith
qed

text \<open>
  The offset formula over the reals, for a deceleration \<open>A\<close> and a duration \<open>T\<close> that
  is the quotient \<open>v / A\<close> up to one rounding.
\<close>

lemma parabola_max:
  fixes v A t :: real
  assumes "0 < A"
  shows "v * t - 1 / 2 * A * t * t \<le> v * v / 2 / A"
proof -
  have "v * v / 2 / A - (v * t - 1 / 2 * A * t * t) = A / 2 * ((t - v / A) * (t - v / A))"
    using assms by (simp add: field_simps)
  moreover have "0 \<le> A / 2 * ((t - v / A) * (t - v / A))" using assms by simp
  ultimately show ?thesis by linarith
qed

lemma parabola_end:
  fixes v A T :: real
  assumes "0 < A" "0 < v" "near 1 (v / A) T"
  shows "(1 - 1 / 2 ^ 53) * (v * v / 2 / A) \<le> v * T - 1 / 2 * A * T * T"
proof -
  define eps where "eps = (1 / 2 ^ 53 :: real)"
  define d where "d = T - v / A"
  define M where "M = v * v / 2 / A"
  have eps: "0 < eps" "eps \<le> 1" by (simp_all add: eps_def)
  have q: "0 < v / A" using assms by simp
  have M: "0 < M" using assms by (simp add: M_def)
  note n = nearD [OF assms(3), folded eps_def]
  have "\<bar>d\<bar> \<le> eps * (v / A)"
    using near_abs [OF assms(3)] by (simp add: d_def eps_def)
  then have "\<bar>d\<bar> * \<bar>d\<bar> \<le> (eps * (v / A)) * (eps * (v / A))"
    by (intro mult_mono) (use eps q in simp_all)
  then have dd: "d * d \<le> (eps * (v / A)) * (eps * (v / A))" by simp
  have "A / 2 * (d * d) \<le> A / 2 * ((eps * (v / A)) * (eps * (v / A)))"
    using dd assms(1) by (intro mult_left_mono) simp_all
  also have "\<dots> = eps * (eps * M)" using assms(1) by (simp add: M_def field_simps)
  also have "\<dots> \<le> eps * M"
  proof -
    have "eps * M \<le> 1 * M" using eps(2) M by (intro mult_right_mono) simp_all
    then have "eps * (eps * M) \<le> eps * (1 * M)" using eps(1) by (intro mult_left_mono) simp_all
    then show ?thesis by simp
  qed
  finally have b: "A / 2 * (d * d) \<le> eps * M" .
  have "M - (v * T - 1 / 2 * A * T * T) = A / 2 * (d * d)"
    using assms(1) by (simp add: M_def d_def field_simps)
  then have "M - eps * M \<le> v * T - 1 / 2 * A * T * T" using b by linarith
  moreover have "(1 - eps) * M = M - eps * M" by (simp add: algebra_simps)
  ultimately show ?thesis by (simp add: M_def eps_def)
qed

lemma parabola_back:
  fixes v A T x y :: real
  assumes "0 < A" "0 < v" "near 1 (v / A) T" "0 \<le> x" "x \<le> y" "y \<le> T"
  shows "v * x - 1 / 2 * A * x * x \<le> v * y - 1 / 2 * A * y * y + v * T / 2 ^ 53"
proof -
  define eps where "eps = (1 / 2 ^ 53 :: real)"
  have eps: "0 < eps" by (simp add: eps_def)
  have T0: "0 \<le> T" using assms(4-6) by linarith
  note n = nearD [OF assms(3), folded eps_def]
  have "A * T \<le> A * ((1 + 1 * eps) * (v / A))"
    using n(2) assms(1) by (intro mult_left_mono) simp_all
  also have "\<dots> = v + eps * v" using assms(1) by (simp add: field_simps)
  finally have AT: "A * T \<le> v + eps * v" .
  have "A * (x + y) \<le> A * (2 * T)"
    using assms(1,5,6) by (intro mult_left_mono) simp_all
  then have s: "1 / 2 * A * (x + y) - v \<le> eps * v" using AT by simp
  have "(y - x) * (1 / 2 * A * (x + y) - v) \<le> T * (eps * v)"
  proof (cases "1 / 2 * A * (x + y) - v \<le> 0")
    case True
    have "(y - x) * (1 / 2 * A * (x + y) - v) \<le> 0"
      using assms(5) True by (simp add: mult_nonneg_nonpos)
    moreover have "0 \<le> T * (eps * v)" using T0 eps assms(2) by simp
    ultimately show ?thesis by linarith
  next
    case False
    have "y - x \<le> T" using assms(4,6) by linarith
    then show ?thesis using s False assms(5) by (intro mult_mono) simp_all
  qed
  moreover have "(y - x) * (1 / 2 * A * (x + y) - v)
      = (v * x - 1 / 2 * A * x * x) - (v * y - 1 / 2 * A * y * y)"
    by (simp add: field_simps)
  moreover have "T * (eps * v) = v * T / 2 ^ 53" by (simp add: eps_def)
  ultimately show ?thesis by linarith
qed

text \<open>The parameters that \<^verbatim>\<open>spin\<close> computes from a speed and a distance.\<close>

lemma two_pow2: "pow2 1 \<le> 2" "2 \<le> pow2 1"
  by (simp_all add: pow2_def)

lemma half_pow2: "pow2 (- 1) \<le> 1 / 2" "1 / 2 \<le> pow2 (- 1)"
  by (simp_all add: pow2_def)

lemma spin_params:
  assumes "pow2 (- 100) \<le> v" "v \<le> pow2 100" "pow2 (- 100) \<le> D" "D \<le> pow2 100"
  shows "\<exists>A T. d_div (d_mul (Dbl v) (Dbl v)) (d_mul (Dbl 2) (Dbl D)) = Dbl A \<and>
               d_div (Dbl v) (Dbl A) = Dbl T \<and>
               near 6 (v * v / (2 * D)) A \<and> near 1 (v / A) T"
proof -
  have v: "0 < v" using assms(1) pow2_pos [of "- 100"] by linarith
  have D: "0 < D" using assms(3) pow2_pos [of "- 100"] by linarith
  note r1 = mult_range [OF assms(1,2,1,2), simplified]
  obtain s where s: "d_mul (Dbl v) (Dbl v) = Dbl s" "near 1 (v * v) s"
    using mul64 [OF r1 _ _ v v] by auto
  note rs = near_range [OF s(2) _ _ r1, simplified]
  have s0: "0 < s" using rs(1) pow2_pos [of "- 201"] by linarith
  note r2 = mult_range [OF two_pow2 assms(3,4), simplified]
  obtain d where d: "d_mul (Dbl 2) (Dbl D) = Dbl d" "near 1 (2 * D) d"
    using mul64 [OF r2 _ _ _ D] by auto
  note rd = near_range [OF d(2) _ _ r2, simplified]
  have d0: "0 < d" using rd(1) pow2_pos [of "- 100"] by linarith
  note r3 = div_range [OF rs rd, simplified]
  obtain A where A: "d_div (Dbl s) (Dbl d) = Dbl A" "near 1 (s / d) A"
    using div64 [OF r3 _ _ s0 d0] by auto
  have vv: "0 < v * v" using v by simp
  have E: "0 < v * v / (2 * D)" using v D by simp
  have "near (1 + 1) (v * v / (2 * D)) (v * v / d)"
    by (rule near_div [OF d(2) _ vv]) (use D in simp_all)
  moreover have "near 1 (v * v / d) (s / d)"
    using near_scale [OF s(2), of "1 / d"] d0 by simp
  ultimately have "near (1 + 1 + 1 + 1) (v * v / (2 * D)) (s / d)"
    by (rule near_trans [OF _ _ E]) simp_all
  then have nA: "near (1 + 1 + 1 + 1 + 1 + 1) (v * v / (2 * D)) A"
    using A(2) by (rule near_trans [OF _ _ E]) simp_all
  then have nA6: "near 6 (v * v / (2 * D)) A" by simp
  note rE = div_range [OF r1 r2, simplified]
  note rA = near_range [OF nA6 _ _ rE, simplified]
  have A0: "0 < A" using rA(1) pow2_pos [of "- 302"] by linarith
  note r4 = div_range [OF assms(1,2) rA, simplified]
  obtain T where T: "d_div (Dbl v) (Dbl A) = Dbl T" "near 1 (v / A) T"
    using div64 [OF r4 _ _ v A0] by auto
  show ?thesis using s(1) d(1) A(1) T nA6 by auto
qed

lemma spin_params_range:
  assumes "pow2 (- 100) \<le> v" "v \<le> pow2 100" "pow2 (- 100) \<le> D" "D \<le> pow2 100"
    and "near 6 (v * v / (2 * D)) A" "near 1 (v / A) T"
  shows "pow2 (- 302) \<le> A" "A \<le> pow2 300" "pow2 (- 200) \<le> T" "T \<le> pow2 202"
    and "near 7 D (v * v / 2 / A)" and "near 9 (2 * D) (v * T)" and "near 9 (2 * D / v) T"
proof -
  have v: "0 < v" using assms(1) pow2_pos [of "- 100"] by linarith
  have D: "0 < D" using assms(3) pow2_pos [of "- 100"] by linarith
  have E: "0 < v * v / (2 * D)" using v D by simp
  note r1 = mult_range [OF assms(1,2,1,2), simplified]
  note r2 = mult_range [OF two_pow2 assms(3,4), simplified]
  note rE = div_range [OF r1 r2, simplified]
  note rA = near_range [OF assms(5) _ _ rE, simplified]
  show "pow2 (- 302) \<le> A" "A \<le> pow2 300" by (rule rA)+
  have A0: "0 < A" using rA(1) pow2_pos [of "- 302"] by linarith
  have "near (6 + 1) (v * v / 2 / (v * v / (2 * D))) (v * v / 2 / A)"
    by (rule near_div [OF assms(5) E]) (use v in simp_all)
  moreover have "v * v / 2 / (v * v / (2 * D)) = D" using v D by (simp add: field_simps)
  ultimately show "near 7 D (v * v / 2 / A)" by simp
  have "near (6 + 1) (v / (v * v / (2 * D))) (v / A)"
    by (rule near_div [OF assms(5) E v]) simp_all
  moreover have "v / (v * v / (2 * D)) = 2 * D / v" using v D by (simp add: field_simps)
  ultimately have q: "near (6 + 1) (2 * D / v) (v / A)" by simp
  have "0 < 2 * D / v" using v D by simp
  from near_trans [OF q assms(6) this]
  have nT: "near 9 (2 * D / v) T" by simp
  note rq = div_range [OF r2 assms(1,2), simplified]
  show "pow2 (- 200) \<le> T" "T \<le> pow2 202"
    by (rule near_range [OF nT _ _ rq, simplified]; simp)+
  have "near 9 (2 * D / v * v) (T * v)" using nT v by (intro near_scale) simp_all
  then show "near 9 (2 * D) (v * T)" using v by (simp add: mult.commute)
  show "near 9 (2 * D / v) T" by (rule nT)
qed

text \<open>
  The offset that a spin frame computes, against the offset formula over the reals: the
  error is at most five units of \<open>2\<^sup>-\<^sup>5\<^sup>3\<close> of \<open>v t\<close>.
\<close>

lemma spin_offset_error:
  assumes "pow2 (- 100) \<le> v" "v \<le> pow2 100" "pow2 (- 302) \<le> A" "A \<le> pow2 300"
    and "near 1 (v / A) T" "T \<le> pow2 202" "pow2 (- 300) \<le> t" "t \<le> T"
  shows "\<exists>x. spinOffset64 (Dbl v) (Dbl A) (Dbl t) = Dbl x \<and>
             \<bar>x - (v * t - 1 / 2 * A * t * t)\<bar> \<le> 5 * (v * t) / 2 ^ 53"
proof -
  have v: "0 < v" using assms(1) pow2_pos [of "- 100"] by linarith
  have A: "0 < A" using assms(3) pow2_pos [of "- 302"] by linarith
  have t: "0 < t" using assms(7) pow2_pos [of "- 300"] by linarith
  have t2: "t \<le> pow2 202" using assms(6,8) by linarith
  define P where "P = v * t"
  define Q where "Q = 1 / 2 * A * t * t"
  have P0: "0 < P" and Q0: "0 < Q" using v A t by (simp_all add: P_def Q_def)
  note rP = mult_range [OF assms(1,2,7) t2, simplified]
  obtain p where p: "d_mul (Dbl v) (Dbl t) = Dbl p" "near 1 (v * t) p"
    using mul64 [OF rP _ _ v t] by auto
  have rH: "pow2 (- 303) \<le> 1 / 2 * A" "1 / 2 * A \<le> pow2 299"
    using mult_range [OF half_pow2 assms(3,4)] by simp_all
  have hp: "(0::real) < 1 / 2" by simp
  obtain h where h: "d_mul (Dbl (1 / 2)) (Dbl A) = Dbl h" "near 1 (1 / 2 * A) h"
    using mul64 [OF rH _ _ hp A] by auto
  note rh = near_range [OF h(2) _ _ rH, simplified]
  have h0: "0 < h" using rh(1) pow2_pos [of "- 304"] by linarith
  note rHt = mult_range [OF rh assms(7) t2, simplified]
  obtain q1 where q1: "d_mul (Dbl h) (Dbl t) = Dbl q1" "near 1 (h * t) q1"
    using mul64 [OF rHt _ _ h0 t] by auto
  have At: "A * t \<le> (1 + 1 * (1 / 2 ^ 53)) * v"
  proof -
    have "A * t \<le> A * T" using assms(8) A by (intro mult_left_mono) simp_all
    also have "\<dots> \<le> A * ((1 + 1 * (1 / 2 ^ 53)) * (v / A))"
      using nearD(2) [OF assms(5)] A by (intro mult_left_mono) simp_all
    also have "\<dots> = (1 + 1 * (1 / 2 ^ 53)) * v" using A by simp
    finally show ?thesis .
  qed
  have hAt0: "0 < 1 / 2 * A * t" using A t by simp
  have "near 1 (1 / 2 * A * t) (h * t)" using h(2) t by (intro near_scale) simp_all
  from near_trans [OF this q1(2) hAt0] have n3: "near 3 (1 / 2 * A * t) q1" by simp
  have lo3: "pow2 (- 603) \<le> 1 / 2 * A * t"
    using mult_range(1) [OF rH assms(7) t2] by simp
  have hi3: "1 / 2 * A * t \<le> pow2 100" using At assms(2) v by simp
  note rq1 = near_range [OF n3 _ _ lo3 hi3, simplified]
  have q10: "0 < q1" using rq1(1) pow2_pos [of "- 604"] by linarith
  note rQ = mult_range [OF rq1 assms(7) t2, simplified]
  obtain q where q: "d_mul (Dbl q1) (Dbl t) = Dbl q" "near 1 (q1 * t) q"
    using mul64 [OF rQ _ _ q10 t] by auto
  have "near 3 (1 / 2 * A * t * t) (q1 * t)" using n3 t by (intro near_scale) simp_all
  from near_trans [OF this q(2)] Q0 have nQ: "near 5 Q q" by (simp add: Q_def)
  have nP: "near 1 P p" using p(2) by (simp add: P_def)
  have "1 / 2 * (A * t) * t \<le> 1 / 2 * ((1 + 1 * (1 / 2 ^ 53)) * v) * t"
    using At t by (intro mult_right_mono mult_left_mono) simp_all
  then have QP: "Q \<le> (1 + 1 / 2 ^ 53) / 2 * P" by (simp add: P_def Q_def)
  have d: "P / 4 \<le> p - q" "p - q \<le> 2 * P"
    using nP nQ QP P0 Q0 by (simp_all add: near_def)
  have "pow2 (- 402) = pow2 (- 400) / 4" using pow2_split [of "- 400" 2] by (simp add: pow2_def)
  also have "\<dots> \<le> P / 4" using rP(1) by (simp add: P_def)
  finally have lo: "pow2 (- 402) \<le> p - q" using d(1) by linarith
  have "2 * P \<le> 2 * pow2 302" using rP(2) by (simp add: P_def)
  also have "\<dots> = pow2 303" using pow2_add [of 1 302] by (simp add: pow2_def)
  finally have hi: "p - q \<le> pow2 303" using d(2) by linarith
  obtain y where y: "d_sub (Dbl p) (Dbl q) = Dbl y" "near 1 (p - q) y"
    using sub64 [OF lo hi] by auto
  have "y - (P - Q) \<le> 5 * P / 2 ^ 53" "(P - Q) - y \<le> 5 * P / 2 ^ 53"
    using nP nQ y(2) QP P0 Q0 by (simp_all add: near_def)
  then have "\<bar>y - (P - Q)\<bar> \<le> 5 * P / 2 ^ 53" by (simp only: abs_le_iff) simp
  moreover have "spinOffset64 (Dbl v) (Dbl A) (Dbl t) = Dbl y"
    by (simp add: spinOffset64_def p(1) h(1) q1(1) q(1) y(1))
  ultimately show ?thesis by (simp add: P_def Q_def)
qed

lemma five_turns_frames:
  "e_mode (ticks64 [Dbl 0, Dbl 5400]
     (spin64 r (Some (Dbl 2)) (Some (Dbl 5)) sampleEngine)) = Spin"
  "e_offset (ticks64 [Dbl 0, Dbl 5400]
     (spin64 r (Some (Dbl 2)) (Some (Dbl 5)) sampleEngine)) = Dbl (8906044184985601 / 2199023255552)"
  "e_offset (ticks64 [Dbl 0, Dbl (176947199 / 32768)]
     (spin64 r (Some (Dbl 2)) (Some (Dbl 5)) sampleEngine)) = Dbl (8906044184985601 / 2199023255552)"
  "e_mode (ticks64 [Dbl 0, Dbl (176947199 / 32768), Dbl (353894399 / 65536)]
     (spin64 r (Some (Dbl 2)) (Some (Dbl 5)) sampleEngine)) = Spin"
  "e_offset (ticks64 [Dbl 0, Dbl (176947199 / 32768), Dbl (353894399 / 65536)]
     (spin64 r (Some (Dbl 2)) (Some (Dbl 5)) sampleEngine)) = Dbl 4050"
proof -
  let ?S = "spin64 r (Some (Dbl 2)) (Some (Dbl 5)) sampleEngine"
  note st = five_turns_start [of r]
  have le: "d_le (elapsed64 (Dbl 5400) (Dbl 0)) (e_spinT (tick64 (Dbl 0) ?S))"
    by (simp add: st five_turns_elapsed d_le_def)
  note fr = running_frame64 [OF st(1) st(2) le]
  show "e_mode (ticks64 [Dbl 0, Dbl 5400] ?S) = Spin" using fr(1) by simp
  show "e_offset (ticks64 [Dbl 0, Dbl 5400] ?S) = Dbl (8906044184985601 / 2199023255552)"
    using fr(3) by (simp add: st five_turns_elapsed five_turns_offsets)
  have le1: "d_le (elapsed64 (Dbl (176947199 / 32768)) (Dbl 0)) (e_spinT (tick64 (Dbl 0) ?S))"
    by (simp add: st five_turns_elapsed d_le_def)
  note f1 = running_frame64 [OF st(1) st(2) le1]
  show "e_offset (ticks64 [Dbl 0, Dbl (176947199 / 32768)] ?S) = Dbl (8906044184985601 / 2199023255552)"
    using f1(3) by (simp add: st five_turns_elapsed five_turns_offsets)
  have le2: "d_le (elapsed64 (Dbl (353894399 / 65536)) (Dbl 0))
               (e_spinT (tick64 (Dbl (176947199 / 32768)) (tick64 (Dbl 0) ?S)))"
    using f1(6) by (simp add: st five_turns_elapsed d_le_def)
  note f2 = running_frame64 [OF f1(1) f1(2) le2]
  show "e_mode (ticks64 [Dbl 0, Dbl (176947199 / 32768), Dbl (353894399 / 65536)] ?S) = Spin" using f2(1) by simp
  show "e_offset (ticks64 [Dbl 0, Dbl (176947199 / 32768), Dbl (353894399 / 65536)] ?S) = Dbl 4050"
    using f2(3) f1(4) f1(5) by (simp add: st five_turns_elapsed five_turns_offsets)
qed

text \<open>The frames of a spin whose speed and distance lie between \<open>2\<^sup>-\<^sup>1\<^sup>0\<^sup>0\<close> and \<open>2\<^sup>1\<^sup>0\<^sup>0\<close>.\<close>

lemma spin_started:
  assumes "e_speed s = Dbl v" "e_accel (spin64 r target rots s) = Dbl A"
    and "e_spinT (spin64 r target rots s) = Dbl T" "0 \<le> T"
  shows "e_mode (tick64 (Dbl t0) (spin64 r target rots s)) = Spin"
    and "e_spinStart (tick64 (Dbl t0) (spin64 r target rots s)) = Some (Dbl t0)"
    and "e_speed (tick64 (Dbl t0) (spin64 r target rots s)) = Dbl v"
    and "e_accel (tick64 (Dbl t0) (spin64 r target rots s)) = Dbl A"
    and "e_spinT (tick64 (Dbl t0) (spin64 r target rots s)) = Dbl T"
    and "e_spinDist (tick64 (Dbl t0) (spin64 r target rots s))
           = e_spinDist (spin64 r target rots s)"
proof -
  let ?S = "spin64 r target rots s"
  have le: "d_le (Dbl 0) (e_spinT ?S)" using assms(3,4) by (simp add: d_le_def)
  note f = first_frame64 [OF spin64_fields(5) spin64_fields(6) le, of t0]
  show "e_mode (tick64 (Dbl t0) ?S) = Spin" by (rule f(1))
  show "e_spinStart (tick64 (Dbl t0) ?S) = Some (Dbl t0)" by (rule f(2))
  show "e_speed (tick64 (Dbl t0) ?S) = Dbl v" using f(4) assms(1) by (simp add: spin64_fields(7))
  show "e_accel (tick64 (Dbl t0) ?S) = Dbl A" using f(5) assms(2) by simp
  show "e_spinT (tick64 (Dbl t0) ?S) = Dbl T" using f(6) assms(3) by simp
  show "e_spinDist (tick64 (Dbl t0) ?S) = e_spinDist ?S" by (rule f(7))
qed

lemma spin_running:
  assumes "e_mode s = Spin" "e_spinStart s = Some (Dbl t0)" "e_speed s = Dbl v"
    and "e_accel s = Dbl A" "e_spinT s = Dbl T"
    and "elapsed64 (Dbl t1) (Dbl t0) = Dbl t" "t \<le> T"
  shows "e_mode (tick64 (Dbl t1) s) = Spin"
    and "e_spinStart (tick64 (Dbl t1) s) = Some (Dbl t0)"
    and "e_speed (tick64 (Dbl t1) s) = Dbl v"
    and "e_accel (tick64 (Dbl t1) s) = Dbl A"
    and "e_spinT (tick64 (Dbl t1) s) = Dbl T"
    and "e_spinDist (tick64 (Dbl t1) s) = e_spinDist s"
    and "e_offset (tick64 (Dbl t1) s) = spinOffset64 (Dbl v) (Dbl A) (Dbl t)"
proof -
  have le: "d_le (elapsed64 (Dbl t1) (Dbl t0)) (e_spinT s)"
    using assms(5,6,7) by (simp add: d_le_def)
  note f = running_frame64 [OF assms(1,2) le]
  show "e_mode (tick64 (Dbl t1) s) = Spin" by (rule f(1))
  show "e_spinStart (tick64 (Dbl t1) s) = Some (Dbl t0)" by (rule f(2))
  show "e_speed (tick64 (Dbl t1) s) = Dbl v" using f(4) assms(3) by simp
  show "e_accel (tick64 (Dbl t1) s) = Dbl A" using f(5) assms(4) by simp
  show "e_spinT (tick64 (Dbl t1) s) = Dbl T" using f(6) assms(5) by simp
  show "e_spinDist (tick64 (Dbl t1) s) = e_spinDist s" by (rule f(7))
  show "e_offset (tick64 (Dbl t1) s) = spinOffset64 (Dbl v) (Dbl A) (Dbl t)"
    using f(3) assms(3,4,6) by simp
qed

section \<open>Spin kinematics in double precision\<close>

text \<open>
  Claim C3 says that the offset at spin-elapsed time \<open>T\<close> equals the distance \<open>D\<close>
  exactly, for every valid spin. The frame at \<open>T\<close> still evaluates the formula, and in
  double precision the result need not be \<open>D\<close>: on the sample reel, \<^verbatim>\<open>spin(2,
  {rotations: 5})\<close> has distance 4050 and duration 5.4 (the double nearest to it), the
  frame at 5400 ms has spin-elapsed time equal to the duration, and it sets the offset to
  \<open>4050 + 2\<^sup>-\<^sup>4\<^sup>1\<close>.
\<close>

theorem spin_end_inexact:
  "e_spinDist (spin64 (Dbl 0) (Some (Dbl 2)) (Some (Dbl 5)) sampleEngine) = Dbl 4050 \<and>
   e_spinT (spin64 (Dbl 0) (Some (Dbl 2)) (Some (Dbl 5)) sampleEngine) = Dbl (3039929748475085 / 562949953421312) \<and>
   elapsed64 (Dbl 5400) (Dbl 0) = Dbl (3039929748475085 / 562949953421312) \<and>
   e_mode (ticks64 [Dbl 0, Dbl 5400]
            (spin64 (Dbl 0) (Some (Dbl 2)) (Some (Dbl 5)) sampleEngine)) = Spin \<and>
   e_offset (ticks64 [Dbl 0, Dbl 5400]
              (spin64 (Dbl 0) (Some (Dbl 2)) (Some (Dbl 5)) sampleEngine))
     = Dbl (4050 + 1 / 2 ^ 41) \<and>
   Dbl (4050 + 1 / 2 ^ 41) \<noteq> Dbl 4050"
  using five_turns_frames(1,2) [of "Dbl 0"]
  by (simp add: five_turns five_turns_elapsed)

text \<open>
  Claim C3, as the code has it. For a spin with a speed \<open>v\<close> and a distance \<open>D\<close> between
  \<open>2\<^sup>-\<^sup>1\<^sup>0\<^sup>0\<close> and \<open>2\<^sup>1\<^sup>0\<^sup>0\<close>, the engine sets a deceleration that differs from
  \<open>v\<^sup>2 / (2 D)\<close> by at most \<open>2\<^sup>-\<^sup>5\<^sup>0\<close> of it and a duration that differs from
  \<open>2 D / v\<close> by at most \<open>2\<^sup>-\<^sup>4\<^sup>9\<close> of it; the frame whose spin-elapsed time equals the
  duration keeps the mode and sets the offset to within \<open>D / 2\<^sup>4\<^sup>8\<close> of \<open>D\<close>; and the
  first frame whose spin-elapsed time exceeds the duration sets the offset to \<open>D\<close>
  exactly and enters pause. In the scenario of the specification (five items, speed
  1500, line height 150, \<^verbatim>\<open>spin(2, {rotations: 6})\<close>) the distance is 4800, the
  deceleration 234.375, the duration the double nearest to 6.4, and the offset at
  6400 ms is 4800.
\<close>

theorem spin_stops_near_distance:
  assumes "e_speed s = Dbl v" and "pow2 (- 100) \<le> v" and "v \<le> pow2 100"
    and "e_spinDist (spin64 r target rots s) = Dbl D"
    and "pow2 (- 100) \<le> D" and "D \<le> pow2 100"
    and "elapsed64 (Dbl t1) (Dbl t0) = e_spinT (spin64 r target rots s)"
    and "\<not> d_le (elapsed64 (Dbl t2) (Dbl t0)) (e_spinT (spin64 r target rots s))"
  shows "\<exists>A T x.
           e_accel (spin64 r target rots s) = Dbl A \<and>
           \<bar>A - v * v / (2 * D)\<bar> \<le> v * v / (2 * D) / 2 ^ 50 \<and>
           e_spinT (spin64 r target rots s) = Dbl T \<and>
           \<bar>T - 2 * D / v\<bar> \<le> 2 * D / v / 2 ^ 49 \<and>
           e_mode (ticks64 [Dbl t0, Dbl t1] (spin64 r target rots s)) = Spin \<and>
           e_offset (ticks64 [Dbl t0, Dbl t1] (spin64 r target rots s)) = Dbl x \<and>
           \<bar>x - D\<bar> \<le> D / 2 ^ 48 \<and>
           e_mode (ticks64 [Dbl t0, Dbl t1, Dbl t2] (spin64 r target rots s)) = Pause \<and>
           e_offset (ticks64 [Dbl t0, Dbl t1, Dbl t2] (spin64 r target rots s)) = Dbl D"
proof -
  let ?S = "spin64 r target rots s"
  have v: "0 < v" using assms(2) pow2_pos [of "- 100"] by linarith
  have D: "0 < D" using assms(5) pow2_pos [of "- 100"] by linarith
  obtain A T where AT:
    "d_div (d_mul (Dbl v) (Dbl v)) (d_mul (Dbl 2) (Dbl D)) = Dbl A"
    "d_div (Dbl v) (Dbl A) = Dbl T"
    "near 6 (v * v / (2 * D)) A" "near 1 (v / A) T"
    using spin_params [OF assms(2,3,5,6)] by blast
  note rg = spin_params_range [OF assms(2,3,5,6) AT(3,4)]
  have A0: "0 < A" using rg(1) pow2_pos [of "- 302"] by linarith
  have T0: "0 < T" using rg(3) pow2_pos [of "- 200"] by linarith
  have acc: "e_accel ?S = Dbl A" by (simp add: spin64_fields(3) assms(1,4) AT(1))
  have dur: "e_spinT ?S = Dbl T" by (simp add: spin64_fields(4) acc assms(1) AT(2))
  have T00: "0 \<le> T" using T0 by simp
  note f0 = spin_started [OF assms(1) acc dur T00, of t0]
  have el: "elapsed64 (Dbl t1) (Dbl t0) = Dbl T" using assms(7) dur by simp
  note f1 = spin_running [OF f0(1,2,3,4,5) el order_refl]
  have "pow2 (- 300) \<le> pow2 (- 200)" by (intro pow2_mono) simp
  then have T3: "pow2 (- 300) \<le> T" using rg(3) by linarith
  obtain x where x: "spinOffset64 (Dbl v) (Dbl A) (Dbl T) = Dbl x"
    "\<bar>x - (v * T - 1 / 2 * A * T * T)\<bar> \<le> 5 * (v * T) / 2 ^ 53"
    using spin_offset_error [OF assms(2,3) rg(1,2) AT(4) rg(4) T3 order_refl] by blast
  define F where "F = v * T - 1 / 2 * A * T * T"
  define M where "M = v * v / 2 / A"
  define V where "V = v * T"
  have xF: "x - F \<le> 5 * V / 2 ^ 53" "F - x \<le> 5 * V / 2 ^ 53"
    using x(2) unfolding F_def V_def by (simp_all only: abs_le_iff) simp_all
  have FM: "F \<le> M" unfolding F_def M_def by (rule parabola_max [OF A0])
  have MF: "(1 - 1 / 2 ^ 53) * M \<le> F"
    unfolding F_def M_def by (rule parabola_end [OF A0 v AT(4)])
  have nM: "near 7 D M" using rg(5) by (simp add: M_def)
  have nV: "near 9 (2 * D) V" using rg(6) by (simp add: V_def)
  have "x - D \<le> D / 2 ^ 48" "D - x \<le> D / 2 ^ 48"
    using xF FM MF nM nV D by (simp_all add: near_def)
  then have xD: "\<bar>x - D\<bar> \<le> D / 2 ^ 48" by (simp only: abs_le_iff) simp
  define E where "E = v * v / (2 * D)"
  have E: "0 < E" using v D by (simp add: E_def)
  have "near 6 E A" using AT(3) by (simp add: E_def)
  then have "A - E \<le> E / 2 ^ 50" "E - A \<le> E / 2 ^ 50" using E by (simp_all add: near_def)
  then have aE: "\<bar>A - v * v / (2 * D)\<bar> \<le> v * v / (2 * D) / 2 ^ 50"
    unfolding E_def by (simp only: abs_le_iff) simp
  define I where "I = 2 * D / v"
  have I: "0 < I" using v D by (simp add: I_def)
  have "near 9 I T" using rg(7) by (simp add: I_def)
  then have "T - I \<le> I / 2 ^ 49" "I - T \<le> I / 2 ^ 49" using I by (simp_all add: near_def)
  then have tI: "\<bar>T - 2 * D / v\<bar> \<le> 2 * D / v / 2 ^ 49"
    unfolding I_def by (simp only: abs_le_iff) simp
  have gt: "\<not> d_le (elapsed64 (Dbl t2) (Dbl t0)) (e_spinT (tick64 (Dbl t1) (tick64 (Dbl t0) ?S)))"
    using assms(8) f1(5) dur by simp
  note f2 = stopping_frame64 [OF f1(1,2) gt]
  have o2: "e_offset (tick64 (Dbl t2) (tick64 (Dbl t1) (tick64 (Dbl t0) ?S))) = Dbl D"
    using f2(2) f1(6) f0(6) assms(4) by simp
  show ?thesis
    using acc aE dur tI f1(1) f1(7) x(1) xD f2(1) o2 by simp
qed

theorem spin_stops_near_distance_witness:
  "e_spinDist (spin64 (Dbl 0) (Some (Dbl 2)) (Some (Dbl 6)) sampleEngine) = Dbl 4800 \<and>
   e_accel (spin64 (Dbl 0) (Some (Dbl 2)) (Some (Dbl 6)) sampleEngine) = Dbl (234375 / 1000) \<and>
   e_spinT (spin64 (Dbl 0) (Some (Dbl 2)) (Some (Dbl 6)) sampleEngine) = Dbl (3602879701896397 / 562949953421312) \<and>
   e_offset (ticks64 [Dbl 0, Dbl 6400]
              (spin64 (Dbl 0) (Some (Dbl 2)) (Some (Dbl 6)) sampleEngine)) = Dbl 4800 \<and>
   e_mode (ticks64 [Dbl 0, Dbl 6400, Dbl 6401]
              (spin64 (Dbl 0) (Some (Dbl 2)) (Some (Dbl 6)) sampleEngine)) = Pause \<and>
   e_offset (ticks64 [Dbl 0, Dbl 6400, Dbl 6401]
              (spin64 (Dbl 0) (Some (Dbl 2)) (Some (Dbl 6)) sampleEngine)) = Dbl 4800"
proof -
  let ?S = "spin64 (Dbl 0) (Some (Dbl 2)) (Some (Dbl 6)) sampleEngine"
  have sp: "e_speed sampleEngine = Dbl 1500" by (simp add: sampleEngine_def)
  have r: "pow2 (- 100) \<le> (1500 :: real)" "(1500 :: real) \<le> pow2 100"
    "pow2 (- 100) \<le> (4800 :: real)" "(4800 :: real) \<le> pow2 100"
    by (simp_all add: pow2_def)
  have el: "elapsed64 (Dbl 6400) (Dbl 0) = e_spinT ?S"
    by (simp add: six_turns six_turns_elapsed)
  have gt: "\<not> d_le (elapsed64 (Dbl 6401) (Dbl 0)) (e_spinT ?S)"
    by (simp add: six_turns six_turns_elapsed d_le_def)
  from spin_stops_near_distance [OF sp r(1,2) six_turns(1) r(3,4) el gt]
  have "e_mode (ticks64 [Dbl 0, Dbl 6400, Dbl 6401] ?S) = Pause"
    "e_offset (ticks64 [Dbl 0, Dbl 6400, Dbl 6401] ?S) = Dbl 4800"
    by blast+
  then show ?thesis
    using six_turns_frames(2) [of "Dbl 0"] by (simp add: six_turns)
qed

text \<open>
  Claim C7 says that the spin offset never decreases over the whole interval from 0 to
  the duration. Evaluated in double precision it can step back: in the spin of distance
  4050 above, the frames at \<open>5400 - 2\<^sup>-\<^sup>1\<^sup>5\<close> and \<open>5400 - 2\<^sup>-\<^sup>1\<^sup>6\<close> ms both lie within
  the duration; the first sets the offset to \<open>4050 + 2\<^sup>-\<^sup>4\<^sup>1\<close>, the second to 4050.
\<close>

theorem spin_steps_back:
  "e_mode (ticks64 [Dbl 0, Dbl (5400 - 2 / 2 ^ 16), Dbl (5400 - 1 / 2 ^ 16)]
            (spin64 (Dbl 0) (Some (Dbl 2)) (Some (Dbl 5)) sampleEngine)) = Spin \<and>
   e_offset (ticks64 [Dbl 0, Dbl (5400 - 2 / 2 ^ 16)]
              (spin64 (Dbl 0) (Some (Dbl 2)) (Some (Dbl 5)) sampleEngine))
     = Dbl (4050 + 1 / 2 ^ 41) \<and>
   e_offset (ticks64 [Dbl 0, Dbl (5400 - 2 / 2 ^ 16), Dbl (5400 - 1 / 2 ^ 16)]
              (spin64 (Dbl 0) (Some (Dbl 2)) (Some (Dbl 5)) sampleEngine))
     = Dbl 4050 \<and>
   d_le (Dbl (4050 + 1 / 2 ^ 41)) (Dbl 4050) = False"
  using five_turns_frames(3,4,5) [of "Dbl 0"]
  by (simp add: d_le_def)

text \<open>
  Claim C7, as the code has it. For a spin with a speed and a distance \<open>D\<close> between
  \<open>2\<^sup>-\<^sup>1\<^sup>0\<^sup>0\<close> and \<open>2\<^sup>1\<^sup>0\<^sup>0\<close>, and two successive frames whose spin-elapsed times
  \<open>u1 \<le> u2\<close> are at least \<open>2\<^sup>-\<^sup>3\<^sup>0\<^sup>0\<close> and at most the duration: both frames keep the
  mode, the later offset is smaller than the earlier one by at most \<open>D / 2\<^sup>4\<^sup>8\<close>, and
  it exceeds \<open>D\<close> by at most \<open>D / 2\<^sup>4\<^sup>8\<close>. The offset is non-decreasing and free of
  overshoot up to this rounding error.
\<close>

theorem spin_offset_nearly_monotone:
  assumes "e_speed s = Dbl v" and "pow2 (- 100) \<le> v" and "v \<le> pow2 100"
    and "e_spinDist (spin64 r target rots s) = Dbl D"
    and "pow2 (- 100) \<le> D" and "D \<le> pow2 100"
    and "elapsed64 (Dbl t1) (Dbl t0) = Dbl u1" and "elapsed64 (Dbl t2) (Dbl t0) = Dbl u2"
    and "pow2 (- 300) \<le> u1" and "u1 \<le> u2"
    and "d_le (Dbl u2) (e_spinT (spin64 r target rots s))"
  shows "\<exists>x1 x2.
           e_offset (ticks64 [Dbl t0, Dbl t1] (spin64 r target rots s)) = Dbl x1 \<and>
           e_offset (ticks64 [Dbl t0, Dbl t1, Dbl t2] (spin64 r target rots s)) = Dbl x2 \<and>
           e_mode (ticks64 [Dbl t0, Dbl t1, Dbl t2] (spin64 r target rots s)) = Spin \<and>
           x1 \<le> x2 + D / 2 ^ 48 \<and> x2 \<le> D + D / 2 ^ 48"
proof -
  let ?S = "spin64 r target rots s"
  have v: "0 < v" using assms(2) pow2_pos [of "- 100"] by linarith
  have D: "0 < D" using assms(5) pow2_pos [of "- 100"] by linarith
  obtain A T where AT:
    "d_div (d_mul (Dbl v) (Dbl v)) (d_mul (Dbl 2) (Dbl D)) = Dbl A"
    "d_div (Dbl v) (Dbl A) = Dbl T"
    "near 6 (v * v / (2 * D)) A" "near 1 (v / A) T"
    using spin_params [OF assms(2,3,5,6)] by blast
  note rg = spin_params_range [OF assms(2,3,5,6) AT(3,4)]
  have A0: "0 < A" using rg(1) pow2_pos [of "- 302"] by linarith
  have T0: "0 \<le> T" using rg(3) pow2_pos [of "- 200"] by linarith
  have acc: "e_accel ?S = Dbl A" by (simp add: spin64_fields(3) assms(1,4) AT(1))
  have dur: "e_spinT ?S = Dbl T" by (simp add: spin64_fields(4) acc assms(1) AT(2))
  have u2: "u2 \<le> T" using assms(11) dur by (simp add: d_le_def)
  have u1: "u1 \<le> T" using assms(10) u2 by linarith
  have u0: "0 \<le> u1" using assms(9) pow2_pos [of "- 300"] by linarith
  have u23: "pow2 (- 300) \<le> u2" using assms(9,10) by linarith
  note f0 = spin_started [OF assms(1) acc dur T0, of t0]
  note f1 = spin_running [OF f0(1,2,3,4,5) assms(7) u1]
  note f2 = spin_running [OF f1(1,2,3,4,5) assms(8) u2]
  obtain x1 where x1: "spinOffset64 (Dbl v) (Dbl A) (Dbl u1) = Dbl x1"
    "\<bar>x1 - (v * u1 - 1 / 2 * A * u1 * u1)\<bar> \<le> 5 * (v * u1) / 2 ^ 53"
    using spin_offset_error [OF assms(2,3) rg(1,2) AT(4) rg(4) assms(9) u1] by blast
  obtain x2 where x2: "spinOffset64 (Dbl v) (Dbl A) (Dbl u2) = Dbl x2"
    "\<bar>x2 - (v * u2 - 1 / 2 * A * u2 * u2)\<bar> \<le> 5 * (v * u2) / 2 ^ 53"
    using spin_offset_error [OF assms(2,3) rg(1,2) AT(4) rg(4) u23 u2] by blast
  define F1 where "F1 = v * u1 - 1 / 2 * A * u1 * u1"
  define F2 where "F2 = v * u2 - 1 / 2 * A * u2 * u2"
  define P1 where "P1 = v * u1"
  define P2 where "P2 = v * u2"
  define M where "M = v * v / 2 / A"
  define V where "V = v * T"
  have e1: "x1 - F1 \<le> 5 * P1 / 2 ^ 53"
    using x1(2) unfolding F1_def P1_def by (simp only: abs_le_iff)
  have e2: "F2 - x2 \<le> 5 * P2 / 2 ^ 53" "x2 - F2 \<le> 5 * P2 / 2 ^ 53"
    using x2(2) unfolding F2_def P2_def by (simp_all only: abs_le_iff) simp_all
  have bk: "F1 \<le> F2 + V / 2 ^ 53"
    unfolding F1_def F2_def V_def by (rule parabola_back [OF A0 v AT(4) u0 assms(10) u2])
  have P: "P1 \<le> V" "P2 \<le> V" "0 \<le> P2"
    using u1 u2 u0 assms(10) v unfolding P1_def P2_def V_def
    by (simp_all add: mult_left_mono)
  have FM: "F2 \<le> M" unfolding F2_def M_def by (rule parabola_max [OF A0])
  have nM: "near 7 D M" using rg(5) by (simp add: M_def)
  have nV: "near 9 (2 * D) V" using rg(6) by (simp add: V_def)
  have a: "x1 \<le> x2 + D / 2 ^ 48"
    using e1 e2(1) bk P nV D by (simp add: near_def)
  have b: "x2 \<le> D + D / 2 ^ 48"
    using e2(2) FM P nM nV D by (simp add: near_def)
  show ?thesis
    using f1(7) x1(1) f2(7) x2(1) f2(1) a b by simp
qed

theorem spin_offset_nearly_monotone_witness:
  "e_offset (ticks64 [Dbl 0, Dbl (5400 - 2 / 2 ^ 16)]
              (spin64 (Dbl 0) (Some (Dbl 2)) (Some (Dbl 5)) sampleEngine))
     = Dbl (4050 + 1 / 2 ^ 41) \<and>
   e_offset (ticks64 [Dbl 0, Dbl (5400 - 2 / 2 ^ 16), Dbl (5400 - 1 / 2 ^ 16)]
              (spin64 (Dbl 0) (Some (Dbl 2)) (Some (Dbl 5)) sampleEngine))
     = Dbl 4050 \<and>
   (4050 + 1 / 2 ^ 41 :: real) \<le> 4050 + 4050 / 2 ^ 48"
proof -
  let ?S = "spin64 (Dbl 0) (Some (Dbl 2)) (Some (Dbl 5)) sampleEngine"
  have sp: "e_speed sampleEngine = Dbl 1500" by (simp add: sampleEngine_def)
  have r: "pow2 (- 100) \<le> (1500 :: real)" "(1500 :: real) \<le> pow2 100"
    "pow2 (- 100) \<le> (4050 :: real)" "(4050 :: real) \<le> pow2 100"
    by (simp_all add: pow2_def)
  have u: "pow2 (- 300) \<le> ((6079859462590431 / 1125899906842624) :: real)" "((6079859462590431 / 1125899906842624) :: real) \<le> (1519964869942575 / 281474976710656)"
    by (simp_all add: pow2_def)
  have le: "d_le (Dbl (1519964869942575 / 281474976710656)) (e_spinT ?S)" by (simp add: five_turns d_le_def)
  from spin_offset_nearly_monotone [OF sp r(1,2) five_turns(1) r(3,4)
      five_turns_elapsed(2,3) u le]
  obtain x1 x2 where x:
    "e_offset (ticks64 [Dbl 0, Dbl (176947199 / 32768)] ?S) = Dbl x1"
    "e_offset (ticks64 [Dbl 0, Dbl (176947199 / 32768), Dbl (353894399 / 65536)] ?S) = Dbl x2"
    "x1 \<le> x2 + 4050 / 2 ^ 48"
    by blast
  have "x1 = (8906044184985601 / 2199023255552)" "x2 = 4050"
    using x(1,2) five_turns_frames(3,5) [of "Dbl 0"] by simp_all
  then have "((8906044184985601 / 2199023255552) :: real) \<le> 4050 + 4050 / 2 ^ 48" using x(3) by simp
  then show ?thesis using five_turns_frames(3,5) [of "Dbl 0"] by simp
qed

text \<open>
  Claim C10. A spin with zero rotations and resolved target index 0 has distance 0, and
  the division by it is not guarded: the deceleration becomes Infinity and the duration
  0, the first spin frame (spin-elapsed time 0) sets the offset to NaN, and the next
  later frame clamps the offset to the distance 0 and enters pause. This holds for a
  line height that is not negative (with a negative one the distance is the negative
  zero and the deceleration the negative infinity), an item count times line height
  below \<open>2\<^sup>1\<^sup>0\<^sup>2\<^sup>3\<close>, a speed of at least \<open>2\<^sup>-\<^sup>5\<^sup>3\<^sup>7\<close> (the square of a smaller one
  rounds to zero, and the deceleration is NaN), and a second frame at least
  \<open>2\<^sup>-\<^sup>1\<^sup>0\<^sup>0\<^sup>0\<close> ms after the first.
\<close>

theorem zero_distance_spin64:
  assumes "e_speed s = Dbl v0" "pow2 (- 537) \<le> v0"
    and "e_lineHeight s = Dbl lh" "0 \<le> lh" "real (length (e_items s)) * lh < pow2 1023"
    and "e_targetIdx (spin64 random target (Some (Dbl 0)) s) = Dbl 0"
    and "t0 + pow2 (- 1000) \<le> t1"
  shows "e_spinDist (spin64 random target (Some (Dbl 0)) s) = Dbl 0 \<and>
         e_accel (spin64 random target (Some (Dbl 0)) s) = PlusInf \<and>
         e_spinT (spin64 random target (Some (Dbl 0)) s) = Dbl 0 \<and>
         e_mode (ticks64 [Dbl t0] (spin64 random target (Some (Dbl 0)) s)) = Spin \<and>
         e_offset (ticks64 [Dbl t0] (spin64 random target (Some (Dbl 0)) s)) = NotANumber \<and>
         e_mode (ticks64 [Dbl t0, Dbl t1] (spin64 random target (Some (Dbl 0)) s)) = Pause \<and>
         e_offset (ticks64 [Dbl t0, Dbl t1] (spin64 random target (Some (Dbl 0)) s)) = Dbl 0"
proof -
  let ?S = "spin64 random target (Some (Dbl 0)) s"
  have v0: "0 < v0" using assms(2) pow2_pos [of "- 537"] by linarith
  have tg: "resolveTarget64 random target s = Dbl 0"
    using assms(6) by (simp add: spin64_fields(1))
  obtain c where c: "d_mul (of_len64 (e_items s)) (e_lineHeight s) = Dbl c" "0 \<le> c"
    using d_mul_nonneg [of "real (length (e_items s))" lh] assms(3-5)
    by (auto simp add: of_len64_def)
  have dist: "e_spinDist ?S = Dbl 0"
    using c assms(4)
    by (simp add: spin64_fields(2) tg assms(3) d_mul_zero_left)
       (simp add: d_add_def signed_zero_def)
  have acc: "e_accel ?S = PlusInf"
    using d_mul_square_pos [OF assms(2)]
    by (auto simp add: spin64_fields(3) dist assms(1) d_mul_zero_right d_div_def signed_inf_def)
  have T: "e_spinT ?S = Dbl 0"
    using v0 by (simp add: spin64_fields(4) acc assms(1)) (simp add: d_div_def signed_zero_def)
  have sp: "e_speed ?S = Dbl v0" by (simp add: spin64_fields(7) assms(1))
  have le: "d_le (Dbl 0) (e_spinT ?S)" by (simp add: T d_le_def)
  note f1 = first_frame64 [OF spin64_fields(5) spin64_fields(6) le, of t0]
  have nan: "spinOffset64 (Dbl v0) PlusInf (Dbl 0) = NotANumber"
    by (simp add: spinOffset64_def d_mul_def d_sub_def d_add_def signed_inf_def)
  have o1: "e_offset (tick64 (Dbl t0) ?S) = NotANumber"
    using f1(3) by (simp add: sp acc nan)
  have gt: "\<not> d_le (elapsed64 (Dbl t1) (Dbl t0)) (e_spinT (tick64 (Dbl t0) ?S))"
    using elapsed64_pos [OF assms(7)] f1(6) by (auto simp add: T d_le_def)
  note f2 = stopping_frame64 [OF f1(1) f1(2) gt]
  have o2: "e_offset (tick64 (Dbl t1) (tick64 (Dbl t0) ?S)) = Dbl 0"
    using f2(2) f1(7) by (simp add: dist)
  show ?thesis using dist acc T f1(1) o1 f2(1) o2 by simp
qed

theorem zero_distance_spin64_witness:
  "e_accel (spin64 (Dbl 0) (Some (Dbl 0)) (Some (Dbl 0)) sampleEngine) = PlusInf \<and>
   e_spinT (spin64 (Dbl 0) (Some (Dbl 0)) (Some (Dbl 0)) sampleEngine) = Dbl 0 \<and>
   e_offset (ticks64 [Dbl 5] (spin64 (Dbl 0) (Some (Dbl 0)) (Some (Dbl 0)) sampleEngine))
     = NotANumber \<and>
   e_offset (ticks64 [Dbl 5, Dbl 6] (spin64 (Dbl 0) (Some (Dbl 0)) (Some (Dbl 0)) sampleEngine))
     = Dbl 0 \<and>
   e_mode (ticks64 [Dbl 5, Dbl 6] (spin64 (Dbl 0) (Some (Dbl 0)) (Some (Dbl 0)) sampleEngine))
     = Pause"
proof -
  have a: "d_rem (Dbl 0) (Dbl 5) = Dbl 0" by (simp add: d_rem_def)
  have b: "d_rem (Dbl 5) (Dbl 5) = Dbl 0"
    by (simp add: d_rem_def trunc64_def Let_def signed_zero_def)
  have tg: "e_targetIdx (spin64 (Dbl 0) (Some (Dbl 0)) (Some (Dbl 0)) sampleEngine) = Dbl 0"
    by (simp add: spin64_fields(1) resolveTarget64_def of_len64_def sampleEngine_def a sum5 b)
  have sp: "e_speed sampleEngine = Dbl 1500" by (simp add: sampleEngine_def)
  have lh: "e_lineHeight sampleEngine = Dbl 150" by (simp add: sampleEngine_def)
  have v: "pow2 (- 537) \<le> (1500 :: real)" by (simp add: pow2_def)
  have n: "real (length (e_items sampleEngine)) * 150 < pow2 1023"
    by (simp add: sampleEngine_def pow2_def)
  have t: "(5 :: real) + pow2 (- 1000) \<le> 6" by (simp add: pow2_def)
  have z: "(0 :: real) \<le> 150" by simp
  from zero_distance_spin64 [OF sp v lh z n tg t] show ?thesis by blast
qed


section \<open>Options, defaults and the vignette\<close>

lemma js_NaN_right [simp]:
  "js_add a NaN = NaN" "js_mul a NaN = NaN" "js_div a NaN = NaN" "js_rem a NaN = NaN"
  by (cases a; simp)+

lemma js_rem_zero [simp]: "js_rem a (Fin 0) = NaN"
  by (cases a) simp_all

lemma js_le_NaN [simp]: "js_le a NaN = False" "js_le NaN a = False"
  by (cases a; simp)+

text \<open>What the constructor makes of the options that matter below.\<close>

lemma constructor_fields:
  "items (constructor b its opts) = its"
  "speed (constructor b its opts) = num_or (opt_speed opts) (Fin 1500)"
  "fadeGradientAlpha (constructor b its opts) = num_or (opt_fadeGradientAlpha opts) (Fin (6 / 10))"
  "fadeOutAlpha (constructor b its opts) = num_nullish (opt_fadeOutAlpha opts) (Fin (2 / 10))"
  "mode (constructor b its opts) = Loop"
  "offset (constructor b its opts) = Fin 0"
  by (simp_all add: constructor_def resize_def startLoop_def requestAnimationFrame_def Let_def)

lemma advance_style:
  "fadeGradientAlpha (advance ts dt s) = fadeGradientAlpha s"
  "fadeGradientColor (advance ts dt s) = fadeGradientColor s"
  "canvasWidth (advance ts dt s) = canvasWidth s"
  "canvasHeight (advance ts dt s) = canvasHeight s"
  "bg (advance ts dt s) = bg s"
  by (simp_all add: advance_def spinStep_def Let_def split: mode.splits)

lemma tick_drawn_eq:
  "tick_drawn (tick b ts s) =
     (let s1 = (if prevTS s = None then s\<lparr>prevTS := Some ts\<rparr> else s);
          s2 = advance ts (js_div (js_sub ts (to_number (prevTS s1))) (Fin 1000)) s1
      in draw b ts (offsetModulo s2) s2)"
  by (simp add: tick_def Let_def)

lemma vignette_advance: "vignette (advance ts dt s) = vignette s"
  by (simp add: vignette_def advance_style Let_def)

lemma vignette_prevTS: "vignette (s\<lparr>prevTS := p\<rparr>) = vignette s"
  by (simp add: vignette_def Let_def)

lemma tick_drawn_prefix:
  "take (Suc (length (vignette s))) (tick_drawn (tick b ts s)) =
     FillRect (Solid (bg s)) (Fin 0) (Fin 0) (canvasWidth s) (canvasHeight s) # vignette s"
  by (simp add: tick_drawn_eq draw_def Let_def vignette_advance vignette_prevTS advance_style)

lemma tick_style:
  "fadeGradientAlpha (tick_state (tick b ts s)) = fadeGradientAlpha s"
  "fadeGradientColor (tick_state (tick b ts s)) = fadeGradientColor s"
  "canvasWidth (tick_state (tick b ts s)) = canvasWidth s"
  "canvasHeight (tick_state (tick b ts s)) = canvasHeight s"
  "bg (tick_state (tick b ts s)) = bg s"
  by (simp_all add: tick_state_eq Let_def advance_style requestAnimationFrame_def)

lemma ticks_style:
  "fadeGradientAlpha (ticks b tss s) = fadeGradientAlpha s \<and>
   fadeGradientColor (ticks b tss s) = fadeGradientColor s \<and>
   canvasWidth (ticks b tss s) = canvasWidth s \<and>
   canvasHeight (ticks b tss s) = canvasHeight s \<and>
   bg (ticks b tss s) = bg s"
  by (induction tss arbitrary: s) (simp_all add: tick_style)

lemma vignette_cong:
  assumes "fadeGradientAlpha s' = fadeGradientAlpha s" "fadeGradientColor s' = fadeGradientColor s"
    and "canvasWidth s' = canvasWidth s" "canvasHeight s' = canvasHeight s"
  shows "vignette s' = vignette s"
  using assms by (simp add: vignette_def Let_def)

text \<open>
  Claim C9 says that a reel constructed with the option \<^verbatim>\<open>fadeGradientAlpha\<close> equal
  to 0 skips both vignette gradients on every frame. The constructor reads the option with
  \<^verbatim>\<open>||\<close>, so a configured 0 is replaced by the default 0.6, and every frame of the
  constructed reel starts with the background followed by the two gradients.
\<close>

theorem zero_gradient_alpha_replaced:
  "fadeGradientAlpha (constructor b its (opts\<lparr>opt_fadeGradientAlpha := Some (Fin 0)\<rparr>))
     = Fin (6 / 10) \<and>
   take 3 (tick_drawn (tick b1 ts
             (ticks b2 tss
                (constructor b its (opts\<lparr>opt_fadeGradientAlpha := Some (Fin 0)\<rparr>))))) =
     [FillRect (Solid (str_or (opt_bg opts) ''#05193C'')) (Fin 0) (Fin 0)
        (innerWidth b) (innerHeight b),
      FillRect (LinearGradient (Fin 0) (Fin 0) (Fin 0) (js_div (innerHeight b) (Fin 2))
                  [(Fin 0, Rgba (str_or (opt_fadeGradientColor opts)
                                   (str_or (opt_bg opts) ''#05193C'')) (Fin (6 / 10))),
                   (Fin 1, Rgba (str_or (opt_fadeGradientColor opts)
                                   (str_or (opt_bg opts) ''#05193C'')) (Fin 0))])
        (Fin 0) (Fin 0) (innerWidth b) (js_div (innerHeight b) (Fin 2)),
      FillRect (LinearGradient (Fin 0) (js_div (innerHeight b) (Fin 2)) (Fin 0) (innerHeight b)
                  [(Fin 0, Rgba (str_or (opt_fadeGradientColor opts)
                                   (str_or (opt_bg opts) ''#05193C'')) (Fin 0)),
                   (Fin 1, Rgba (str_or (opt_fadeGradientColor opts)
                                   (str_or (opt_bg opts) ''#05193C'')) (Fin (6 / 10)))])
        (Fin 0) (js_div (innerHeight b) (Fin 2)) (innerWidth b) (js_div (innerHeight b) (Fin 2))]"
proof -
  let ?s = "constructor b its (opts\<lparr>opt_fadeGradientAlpha := Some (Fin 0)\<rparr>)"
  let ?r = "ticks b2 tss ?s"
  have a: "fadeGradientAlpha ?s = Fin (6 / 10)"
    by (simp add: constructor_fields num_or_def truthy_def)
  have f: "bg ?s = str_or (opt_bg opts) ''#05193C''"
    "fadeGradientColor ?s = str_or (opt_fadeGradientColor opts) (str_or (opt_bg opts) ''#05193C'')"
    "canvasWidth ?s = innerWidth b" "canvasHeight ?s = innerHeight b"
    by (simp_all add: constructor_def resize_def startLoop_def requestAnimationFrame_def Let_def)
  have v: "vignette ?s =
     [FillRect (LinearGradient (Fin 0) (Fin 0) (Fin 0) (js_div (innerHeight b) (Fin 2))
                  [(Fin 0, Rgba (fadeGradientColor ?s) (Fin (6 / 10))),
                   (Fin 1, Rgba (fadeGradientColor ?s) (Fin 0))])
        (Fin 0) (Fin 0) (innerWidth b) (js_div (innerHeight b) (Fin 2)),
      FillRect (LinearGradient (Fin 0) (js_div (innerHeight b) (Fin 2)) (Fin 0) (innerHeight b)
                  [(Fin 0, Rgba (fadeGradientColor ?s) (Fin 0)),
                   (Fin 1, Rgba (fadeGradientColor ?s) (Fin (6 / 10)))])
        (Fin 0) (js_div (innerHeight b) (Fin 2)) (innerWidth b) (js_div (innerHeight b) (Fin 2))]"
    by (simp add: vignette_def a f(3,4) js_gt_def Let_def)
  note k = ticks_style [of b2 tss ?s]
  have vr: "vignette ?r = vignette ?s"
    by (rule vignette_cong) (simp_all add: k)
  have len: "Suc (length (vignette ?r)) = 3" by (simp add: vr v)
  have "take 3 (tick_drawn (tick b1 ts ?r)) =
          FillRect (Solid (bg ?r)) (Fin 0) (Fin 0) (canvasWidth ?r) (canvasHeight ?r) # vignette ?r"
    using tick_drawn_prefix [of ?r b1 ts] by (simp only: len)
  then have "take 3 (tick_drawn (tick b1 ts ?r)) =
          FillRect (Solid (bg ?s)) (Fin 0) (Fin 0) (canvasWidth ?s) (canvasHeight ?s) # vignette ?s"
    by (simp only: vr k)
  then show ?thesis using a by (simp add: v f)
qed

section \<open>Degenerate configurations\<close>

lemma zero_fadeOutAlpha_kept:
  "fadeOutAlpha (constructor b its (opts\<lparr>opt_fadeOutAlpha := Some (Fin 0)\<rparr>)) = Fin 0"
  by (simp add: constructor_fields num_nullish_def)

lemma vignette_skipped: "fadeGradientAlpha s = Fin 0 \<Longrightarrow> vignette s = []"
  by (simp add: vignette_def js_gt_def Let_def)

text \<open>Spin on an empty item list.\<close>

lemma spin_empty_items:
  assumes "items s = []"
  shows "targetIdx (spin b (Some k) so s) = NaN"
    and "spinDist (spin b (Some k) so s) = NaN"
    and "accel (spin b (Some k) so s) = NaN"
    and "spinT (spin b (Some k) so s) = NaN"
proof -
  show t: "targetIdx (spin b (Some k) so s) = NaN"
    using assms by (simp add: spin_fields resolveTarget_def of_len_def)
  show d: "spinDist (spin b (Some k) so s) = NaN"
    using t by (simp add: spin_fields(1,2))
  show a: "accel (spin b (Some k) so s) = NaN"
    by (simp add: spin_fields(3) d)
  show "spinT (spin b (Some k) so s) = NaN"
    by (simp add: spin_fields(4) a)
qed

lemma spinStep_NaN_duration:
  assumes "spinT s = NaN"
  shows "offset (spinStep ts s) = spinDist s" and "mode (spinStep ts s) = Pause"
  using assms by (simp_all add: spinStep_def Let_def)

lemma spinStep_negative_duration:
  assumes "spinStart s = None" "spinT s = Fin T" "T < 0"
  shows "offset (spinStep (Fin t0) s) = spinDist s" and "mode (spinStep (Fin t0) s) = Pause"
  using assms by (simp_all add: spinStep_def Let_def to_number_def js_sub_def)

text \<open>
  Claim C5, as the code has it. Nothing is rejected and no speed is clamped when a spin
  starts. The constructor takes the speed option or, when it is absent or falsy, the
  default 1500: a configured 0 becomes 1500, a negative speed is kept. On an empty item
  list, a spin to a given index makes the target index, the distance, the deceleration
  and the duration NaN, and the next frame sets the offset to NaN and enters pause. In
  double precision: with the speed zero the duration is NaN, and the first spin frame
  sets the offset to the spin distance and enters pause; with a negative speed of
  magnitude between \<open>2\<^sup>-\<^sup>2\<^sup>5\<^sup>0\<close> and \<open>2\<^sup>2\<^sup>5\<^sup>0\<close> and a distance \<open>D\<close> of at least
  \<open>2\<^sup>-\<^sup>2\<^sup>5\<^sup>0\<close> the duration is negative, and the first spin frame sets the offset to
  \<open>D\<close> and enters pause.
\<close>

theorem no_validation:
  "speed (constructor b its (opts\<lparr>opt_speed := None\<rparr>)) = Fin 1500 \<and>
   speed (constructor b its (opts\<lparr>opt_speed := Some (Fin 0)\<rparr>)) = Fin 1500 \<and>
   (v < 0 \<longrightarrow> speed (constructor b its (opts\<lparr>opt_speed := Some (Fin v)\<rparr>)) = Fin v) \<and>
   (items s = [] \<longrightarrow>
      targetIdx (spin b (Some k) so s) = NaN \<and>
      spinDist (spin b (Some k) so s) = NaN \<and>
      accel (spin b (Some k) so s) = NaN \<and>
      spinT (spin b (Some k) so s) = NaN \<and>
      offset (ticks b1 [ts] (spin b (Some k) so s)) = NaN \<and>
      mode (ticks b1 [ts] (spin b (Some k) so s)) = Pause) \<and>
   (e_speed e = Dbl 0 \<longrightarrow>
      e_spinT (spin64 r target rots e) = NotANumber \<and>
      e_offset (ticks64 [Dbl t0] (spin64 r target rots e))
        = e_spinDist (spin64 r target rots e) \<and>
      e_mode (ticks64 [Dbl t0] (spin64 r target rots e)) = Pause) \<and>
   (e_speed e = Dbl v0 \<and> pow2 (- 250) \<le> - v0 \<and> - v0 \<le> pow2 250 \<and>
    e_spinDist (spin64 r target rots e) = Dbl D \<and> pow2 (- 250) \<le> D \<longrightarrow>
      e_offset (ticks64 [Dbl t0] (spin64 r target rots e)) = Dbl D \<and>
      e_mode (ticks64 [Dbl t0] (spin64 r target rots e)) = Pause)"
proof (intro conjI impI)
  show "speed (constructor b its (opts\<lparr>opt_speed := None\<rparr>)) = Fin 1500"
    by (simp add: constructor_fields num_or_def)
  show "speed (constructor b its (opts\<lparr>opt_speed := Some (Fin 0)\<rparr>)) = Fin 1500"
    by (simp add: constructor_fields num_or_def truthy_def)
  show "speed (constructor b its (opts\<lparr>opt_speed := Some (Fin v)\<rparr>)) = Fin v" if "v < 0"
    using that by (simp add: constructor_fields num_or_def truthy_def)
next
  assume e: "items s = []"
  let ?s' = "spin b (Some k) so s"
  have m: "mode ?s' = Spin" by (simp add: spin_fields)
  note n = spin_empty_items [OF e, of b k so]
  show "targetIdx ?s' = NaN" "spinDist ?s' = NaN" "accel ?s' = NaN" "spinT ?s' = NaN"
    by (rule n)+
  show "offset (ticks b1 [ts] ?s') = NaN"
    by (simp add: tick_in_spin(1) [OF m] spinStep_NaN_duration(1) n)
  show "mode (ticks b1 [ts] ?s') = Pause"
    by (simp add: tick_in_spin(2) [OF m] spinStep_NaN_duration(2) n)
next
  assume z: "e_speed e = Dbl 0"
  show "e_spinT (spin64 r target rots e) = NotANumber"
    by (rule zero_speed_spin64(1) [OF z])
  show "e_offset (ticks64 [Dbl t0] (spin64 r target rots e))
          = e_spinDist (spin64 r target rots e)"
    by (rule zero_speed_spin64(2) [OF z])
  show "e_mode (ticks64 [Dbl t0] (spin64 r target rots e)) = Pause"
    by (rule zero_speed_spin64(3) [OF z])
next
  assume h: "e_speed e = Dbl v0 \<and> pow2 (- 250) \<le> - v0 \<and> - v0 \<le> pow2 250 \<and>
             e_spinDist (spin64 r target rots e) = Dbl D \<and> pow2 (- 250) \<le> D"
  then have h': "e_speed e = Dbl v0" "pow2 (- 250) \<le> - v0" "- v0 \<le> pow2 250"
    "e_spinDist (spin64 r target rots e) = Dbl D" "pow2 (- 250) \<le> D"
    by simp_all
  show "e_offset (ticks64 [Dbl t0] (spin64 r target rots e)) = Dbl D"
    by (rule negative_speed_spin64(1) [OF h'])
  show "e_mode (ticks64 [Dbl t0] (spin64 r target rots e)) = Pause"
    by (rule negative_speed_spin64(2) [OF h'])
qed

lemma spinDist_any_speed:
  "e_spinDist (spin64 r target rots (s\<lparr>e_speed := v\<rparr>)) = e_spinDist (spin64 r target rots s)"
  by (cases target) (simp_all add: spin64_fields(2) resolveTarget64_def)

theorem no_validation_witness:
  "offset (ticks sampleBrowser [Fin 0]
             (spin sampleBrowser (Some (Fin 0)) noSpinOpts
                (constructor sampleBrowser [] noOpts))) = NaN \<and>
   speed (constructor sampleBrowser [] (noOpts\<lparr>opt_speed := Some (Fin (- 5))\<rparr>))
     = Fin (- 5) \<and>
   e_offset (ticks64 [Dbl 0]
               (spin64 (Dbl 0) (Some (Dbl 2)) (Some (Dbl 6))
                  (sampleEngine\<lparr>e_speed := Dbl 0\<rparr>))) = Dbl 4800 \<and>
   e_offset (ticks64 [Dbl 0]
               (spin64 (Dbl 0) (Some (Dbl 2)) (Some (Dbl 6))
                  (sampleEngine\<lparr>e_speed := Dbl (- 1500)\<rparr>))) = Dbl 4800 \<and>
   e_mode (ticks64 [Dbl 0]
               (spin64 (Dbl 0) (Some (Dbl 2)) (Some (Dbl 6))
                  (sampleEngine\<lparr>e_speed := Dbl (- 1500)\<rparr>))) = Pause"
proof -
  have d: "e_spinDist (spin64 (Dbl 0) (Some (Dbl 2)) (Some (Dbl 6))
                         (sampleEngine\<lparr>e_speed := x\<rparr>)) = Dbl 4800" for x
    by (simp only: spinDist_any_speed six_turns(1))
  have r: "pow2 (- 250) \<le> - (- 1500 :: real)" "- (- 1500 :: real) \<le> pow2 250"
    "pow2 (- 250) \<le> (4800 :: real)"
    by (simp_all add: pow2_def)
  have s0: "e_speed (sampleEngine\<lparr>e_speed := Dbl 0\<rparr>) = Dbl 0" by simp
  have s1: "e_speed (sampleEngine\<lparr>e_speed := Dbl (- 1500)\<rparr>) = Dbl (- 1500)" by simp
  have e: "items (constructor sampleBrowser [] noOpts) = []"
    by (simp add: constructor_fields)
  have n: "(- 5 :: real) < 0" by simp
  note a = no_validation [where b = sampleBrowser and its = "[]" and opts = noOpts
      and v = "- 5" and s = "constructor sampleBrowser [] noOpts" and k = "Fin 0"
      and so = noSpinOpts and ?b1.0 = sampleBrowser and ts = "Fin 0"
      and e = "sampleEngine\<lparr>e_speed := Dbl 0\<rparr>" and r = "Dbl 0"
      and target = "Some (Dbl 2)" and rots = "Some (Dbl 6)" and ?t0.0 = 0
      and ?v0.0 = 0 and D = 0]
  note b = no_validation [where b = sampleBrowser and its = "[]" and opts = noOpts
      and v = "- 5" and s = "constructor sampleBrowser [] noOpts" and k = "Fin 0"
      and so = noSpinOpts and ?b1.0 = sampleBrowser and ts = "Fin 0"
      and e = "sampleEngine\<lparr>e_speed := Dbl (- 1500)\<rparr>" and r = "Dbl 0"
      and target = "Some (Dbl 2)" and rots = "Some (Dbl 6)" and ?t0.0 = 0
      and ?v0.0 = "- 1500" and D = 4800]
  from a e n s0 d [of "Dbl 0"]
  have "offset (ticks sampleBrowser [Fin 0]
             (spin sampleBrowser (Some (Fin 0)) noSpinOpts
                (constructor sampleBrowser [] noOpts))) = NaN"
    "speed (constructor sampleBrowser [] (noOpts\<lparr>opt_speed := Some (Fin (- 5))\<rparr>))
       = Fin (- 5)"
    "e_offset (ticks64 [Dbl 0]
               (spin64 (Dbl 0) (Some (Dbl 2)) (Some (Dbl 6))
                  (sampleEngine\<lparr>e_speed := Dbl 0\<rparr>))) = Dbl 4800"
    by simp_all
  moreover from b s1 r d [of "Dbl (- 1500)"]
  have "e_offset (ticks64 [Dbl 0]
               (spin64 (Dbl 0) (Some (Dbl 2)) (Some (Dbl 6))
                  (sampleEngine\<lparr>e_speed := Dbl (- 1500)\<rparr>))) = Dbl 4800"
    "e_mode (ticks64 [Dbl 0]
               (spin64 (Dbl 0) (Some (Dbl 2)) (Some (Dbl 6))
                  (sampleEngine\<lparr>e_speed := Dbl (- 1500)\<rparr>))) = Pause"
    by simp_all
  ultimately show ?thesis by simp
qed

text \<open>
  The reading of C5 that the engine fails fast does not hold: a reel with no items is
  constructed, and a spin on it ends in the offset NaN; a negative speed option is kept.
\<close>

theorem no_validation_counterexample:
  "offset (ticks sampleBrowser [Fin 0]
             (spin sampleBrowser (Some (Fin 0)) noSpinOpts
                (constructor sampleBrowser [] noOpts))) = NaN \<and>
   speed (constructor sampleBrowser [''A''] (noOpts\<lparr>opt_speed := Some (Fin (- 5))\<rparr>))
     = Fin (- 5)"
proof -
  let ?s = "constructor sampleBrowser [] noOpts"
  let ?s' = "spin sampleBrowser (Some (Fin 0)) noSpinOpts ?s"
  have e: "items ?s = []" by (simp add: constructor_fields)
  have m: "mode ?s' = Spin" by (simp add: spin_fields)
  have "offset (tick_state (tick sampleBrowser (Fin 0) ?s')) = NaN"
    by (simp add: tick_in_spin(1) [OF m] spinStep_NaN_duration(1) spin_empty_items [OF e])
  then show ?thesis
    by (simp add: constructor_fields num_or_def truthy_def)
qed

section \<open>Stopping and resuming\<close>

text \<open>Frames while idle.\<close>

lemma tick_idle:
  assumes "mode s = Idle"
  shows "tick_state (tick b ts s) = s\<lparr>prevTS := Some ts\<rparr>"
  using assms by (simp add: tick_state_eq advance_def Let_def)






text \<open>
  After a frame has run while idle, the request handle is still set, so
  \<^verbatim>\<open>startLoop\<close> requests no frame.
\<close>

lemma startLoop_requests_nothing:
  assumes "raf s"
  shows "rafRequests (startLoop v (tick_state (tick b ts (stopLoop s)))) = rafRequests s"
proof -
  have m: "mode (stopLoop s) = Idle" by (simp add: stopLoop_def)
  have "tick_state (tick b ts (stopLoop s)) = s\<lparr>mode := Idle, prevTS := Some ts\<rparr>"
    by (simp add: tick_idle [OF m]) (simp add: stopLoop_def)
  then show ?thesis using assms
    by (simp add: startLoop_def Let_def split: option.splits)
qed

section \<open>The highlight frame\<close>

lemma pairReel_eq:
  "pairReel =
     \<lparr> items = [''A'', ''B''],
       font = ''120px \"Noto Sans JP\", sans-serif'',
       colors = [''#41ACF0'', ''#D793FF''],
       bg = ''#05193C'',
       speed = Fin 1500,
       fontWeight = None,
       fadeOutAlpha = Fin (2 / 10),
       zoomScale = Fin (18 / 10),
       lineSpacing = Fin (125 / 100),
       highlightDelay = Fin 400,
       highlightAnimDuration = Fin 1200,
       fadeGradientColor = ''#05193C'',
       fadeGradientAlpha = Fin (6 / 10),
       fadeGradientPower = Fin 1,
       mode = Loop,
       offset = Fin 0,
       targetIdx = Fin 0,
       spinStart = None,
       spinT = Fin 0,
       accel = Fin 0,
       spinDist = Fin 0,
       pauseStart = None,
       highlightStart = None,
       prevTS = None,
       canvasWidth = Fin 800,
       canvasHeight = Fin 600,
       fontHeight = Fin 120,
       lineHeight = Fin 150,
       raf = True,
       rafRequests = 1 \<rparr>"
  by (simp add: pairReel_def constructor_def resize_def startLoop_def
        requestAnimationFrame_def sampleBrowser_def noOpts_def Let_def num_or_def
        num_nullish_def str_or_def fontString_def)

lemma halfTurnReel_eq:
  "halfTurnReel =
     \<lparr> items = [''A'', ''B''],
       font = ''120px \"Noto Sans JP\", sans-serif'',
       colors = [''#41ACF0'', ''#D793FF''],
       bg = ''#05193C'',
       speed = Fin 1500,
       fontWeight = None,
       fadeOutAlpha = Fin (2 / 10),
       zoomScale = Fin (18 / 10),
       lineSpacing = Fin (125 / 100),
       highlightDelay = Fin 400,
       highlightAnimDuration = Fin 1200,
       fadeGradientColor = ''#05193C'',
       fadeGradientAlpha = Fin (6 / 10),
       fadeGradientPower = Fin 1,
       mode = Highlight,
       offset = Fin 150,
       targetIdx = Fin 0,
       spinStart = Some (Fin 0),
       spinT = Fin (2 / 10),
       accel = Fin 7500,
       spinDist = Fin 150,
       pauseStart = Some (Fin 201),
       highlightStart = Some (Fin 601),
       prevTS = Some (Fin 601),
       canvasWidth = Fin 800,
       canvasHeight = Fin 600,
       fontHeight = Fin 120,
       lineHeight = Fin 150,
       raf = True,
       rafRequests = 4 \<rparr>"
  by (simp add: halfTurnReel_def pairReel_eq spin_def resolveTarget_def rotations_def
        num_nullish_def of_len_def trunc_def Let_def tick_state_eq advance_def spinStep_def
        to_number_def js_sub_def js_ge_def requestAnimationFrame_def)

lemma upt6: "[0 ..< 6] = [0, 1, 2, 3, 4, 5]"
  by (simp add: upt_rec)

lemma halfTurn_rows:
  "textRows sampleBrowser (Fin 1801) (offsetModulo halfTurnReel) halfTurnReel =
     [\<lparr> row_idx = 0, row_x = Fin 400, row_y = Fin (- 150), row_scale = Fin 1,
        row_alpha = Fin (2 / 10), row_fill = Some ''#41ACF0'', row_text = ''A'' \<rparr>,
      \<lparr> row_idx = 1, row_x = Fin 400, row_y = Fin 0, row_scale = Fin 1,
        row_alpha = Fin (2 / 10), row_fill = Some ''#D793FF'', row_text = ''B'' \<rparr>,
      \<lparr> row_idx = 0, row_x = Fin 400, row_y = Fin 150, row_scale = Fin 1,
        row_alpha = Fin (2 / 10), row_fill = Some ''#41ACF0'', row_text = ''A'' \<rparr>,
      \<lparr> row_idx = 1, row_x = Fin 400, row_y = Fin 300, row_scale = Fin (18 / 10),
        row_alpha = Fin 1, row_fill = Some ''#D793FF'', row_text = ''B'' \<rparr>,
      \<lparr> row_idx = 0, row_x = Fin 400, row_y = Fin 450, row_scale = Fin 1,
        row_alpha = Fin (2 / 10), row_fill = Some ''#41ACF0'', row_text = ''A'' \<rparr>,
      \<lparr> row_idx = 1, row_x = Fin 400, row_y = Fin 600, row_scale = Fin 1,
        row_alpha = Fin (2 / 10), row_fill = Some ''#D793FF'', row_text = ''B'' \<rparr>]"
  by (simp add: halfTurnReel_eq textRows_def offsetModulo_def of_len_def trunc_def Let_def
        zoomProgress_def truthy_def to_number_def js_sub_def js_min_def upt6
        List.map_filter_simps textRow_def rowY_def culled_def js_gt_def rowStyle_def
        inCenter_def easeOutCubic_def paletteColour_def
        numeral_2_eq_2 [symmetric])

lemma halfTurn_rows_R9:
  "textRows_R9 sampleBrowser (Fin 1801) halfTurnReel =
     [\<lparr> row_idx = 0, row_x = Fin 400, row_y = Fin (- 150), row_scale = Fin 1,
        row_alpha = Fin (2 / 10), row_fill = Some ''#41ACF0'', row_text = ''A'' \<rparr>,
      \<lparr> row_idx = 1, row_x = Fin 400, row_y = Fin 0, row_scale = Fin 1,
        row_alpha = Fin (2 / 10), row_fill = Some ''#D793FF'', row_text = ''B'' \<rparr>,
      \<lparr> row_idx = 0, row_x = Fin 400, row_y = Fin 150, row_scale = Fin 1,
        row_alpha = Fin (2 / 10), row_fill = Some ''#41ACF0'', row_text = ''A'' \<rparr>,
      \<lparr> row_idx = 1, row_x = Fin 400, row_y = Fin 300, row_scale = Fin 1,
        row_alpha = Fin (2 / 10), row_fill = Some ''#D793FF'', row_text = ''B'' \<rparr>,
      \<lparr> row_idx = 0, row_x = Fin 400, row_y = Fin 450, row_scale = Fin 1,
        row_alpha = Fin (2 / 10), row_fill = Some ''#41ACF0'', row_text = ''A'' \<rparr>,
      \<lparr> row_idx = 1, row_x = Fin 400, row_y = Fin 600, row_scale = Fin 1,
        row_alpha = Fin (2 / 10), row_fill = Some ''#D793FF'', row_text = ''B'' \<rparr>]"
  by (simp add: halfTurnReel_eq textRows_R9_def of_len_def trunc_def Let_def
        zoomProgress_def truthy_def to_number_def js_sub_def js_min_def upt6
        List.map_filter_simps textRow_R9_def rowY_def culled_def js_gt_def rowStyle_R9_def
        inCenter_def easeOutCubic_def paletteColour_def js_eq_def
        numeral_2_eq_2 [symmetric])

lemma rowStyle_centred:
  assumes "mode s = Highlight" "inCenter s centerY y"
  shows "rowStyle s zoomP centerY idx y =
           (js_add (Fin 1) (js_mul (js_sub (zoomScale s) (Fin 1)) (easeOutCubic zoomP)), Fin 1)"
  using assms by (simp add: rowStyle_def)

lemma rowStyle_R9_highlight:
  assumes "mode s = Highlight"
  shows "rowStyle_R9 s zoomP centerY idx y =
           (if inCenter s centerY y \<and> targetIdx s = Fin (real idx)
            then (js_add (Fin 1) (js_mul (js_sub (zoomScale s) (Fin 1)) (easeOutCubic zoomP)),
                  Fin 1)
            else (Fin 1, fadeOutAlpha s))"
  using assms by (auto simp add: rowStyle_R9_def js_eq_def)

lemma full_zoom: "js_add (Fin 1) (js_mul (js_sub (Fin z) (Fin 1)) (easeOutCubic (Fin 1))) = Fin z"
  by (simp add: easeOutCubic_def js_sub_def)

lemma tick_drawn_highlight:
  assumes "mode s = Highlight" "prevTS s \<noteq> None"
  shows "tick_drawn (tick b ts s) = draw b ts (offsetModulo s) s"
proof -
  from assms(2) obtain p where p: "prevTS s = Some p" by auto
  show ?thesis using assms(1) p by (simp add: tick_drawn_eq advance_def Let_def)
qed

lemma tick_targetIdx: "targetIdx (tick_state (tick b ts s)) = targetIdx s"
  by (cases "mode s")
     (simp_all add: tick_state_eq advance_def spinStep_def Let_def requestAnimationFrame_def)

text \<open>
  Claim C1 says that in highlight mode the zoom is applied exactly to the row that is
  within half a line height of the centre and whose item index is the target index, and
  that every other visible row is drawn with opacity \<^verbatim>\<open>fadeOutAlpha\<close>. Revision
  v3.8R10 tests the centring only. On the two-item reel after half a rotation to item 0,
  the frame at full zoom progress draws the centred row of item 1 with scale 1.8 and
  opacity 1, although the target index is 0.
\<close>

theorem centred_row_zoomed_without_target:
  "mode halfTurnReel = Highlight \<and> targetIdx halfTurnReel = Fin 0 \<and>
   drop 5 (tick_drawn (tick sampleBrowser (Fin 1801) halfTurnReel)) =
     map FillText
       [\<lparr> row_idx = 0, row_x = Fin 400, row_y = Fin (- 150), row_scale = Fin 1,
          row_alpha = Fin (2 / 10), row_fill = Some ''#41ACF0'', row_text = ''A'' \<rparr>,
        \<lparr> row_idx = 1, row_x = Fin 400, row_y = Fin 0, row_scale = Fin 1,
          row_alpha = Fin (2 / 10), row_fill = Some ''#D793FF'', row_text = ''B'' \<rparr>,
        \<lparr> row_idx = 0, row_x = Fin 400, row_y = Fin 150, row_scale = Fin 1,
          row_alpha = Fin (2 / 10), row_fill = Some ''#41ACF0'', row_text = ''A'' \<rparr>,
        \<lparr> row_idx = 1, row_x = Fin 400, row_y = Fin 300, row_scale = Fin (18 / 10),
          row_alpha = Fin 1, row_fill = Some ''#D793FF'', row_text = ''B'' \<rparr>,
        \<lparr> row_idx = 0, row_x = Fin 400, row_y = Fin 450, row_scale = Fin 1,
          row_alpha = Fin (2 / 10), row_fill = Some ''#41ACF0'', row_text = ''A'' \<rparr>,
        \<lparr> row_idx = 1, row_x = Fin 400, row_y = Fin 600, row_scale = Fin 1,
          row_alpha = Fin (2 / 10), row_fill = Some ''#D793FF'', row_text = ''B'' \<rparr>]"
proof -
  have m: "mode halfTurnReel = Highlight" "prevTS halfTurnReel \<noteq> None"
    "targetIdx halfTurnReel = Fin 0"
    by (simp_all add: halfTurnReel_eq)
  have v: "length (vignette halfTurnReel) = 2"
    by (simp add: vignette_def halfTurnReel_eq js_gt_def Let_def)
  have "drop 5 (tick_drawn (tick sampleBrowser (Fin 1801) halfTurnReel)) =
          map FillText (textRows sampleBrowser (Fin 1801) (offsetModulo halfTurnReel) halfTurnReel)"
    by (simp add: tick_drawn_highlight [OF m(1,2)] draw_def v)
  then show ?thesis using m by (simp only: halfTurn_rows simp_thms)
qed

section \<open>The stop hook\<close>

lemma tick_calls_no_hook: "tick_onStop (tick b ts s) = []"
  by (simp add: tick_def Let_def)

text \<open>
  Claim C2 says that the hook \<^verbatim>\<open>onStop\<close> is called once, with the target index, in
  the frame that takes a spin to pause. The frame step of v3.8R10 contains no call of the
  hook: in the sample spin to item 2, the frame at 6401 ms enters pause and calls nothing.
\<close>

theorem onStop_not_called:
  "mode (ticks sampleBrowser [Fin 0, Fin 6400]
           (spin sampleBrowser (Some (Fin 2)) (rotations (Fin 6)) sampleReel)) = Spin \<and>
   mode (ticks sampleBrowser [Fin 0, Fin 6400, Fin 6401]
           (spin sampleBrowser (Some (Fin 2)) (rotations (Fin 6)) sampleReel)) = Pause \<and>
   targetIdx (ticks sampleBrowser [Fin 0, Fin 6400, Fin 6401]
           (spin sampleBrowser (Some (Fin 2)) (rotations (Fin 6)) sampleReel)) = Fin 2 \<and>
   tick_onStop (tick sampleBrowser (Fin 6401)
      (ticks sampleBrowser [Fin 0, Fin 6400]
         (spin sampleBrowser (Some (Fin 2)) (rotations (Fin 6)) sampleReel))) = []"
proof -
  let ?sp = "spin sampleBrowser (Some (Fin 2)) (rotations (Fin 6)) sampleReel"
  let ?a = "tick_state (tick sampleBrowser (Fin 0) ?sp)"
  let ?b = "tick_state (tick sampleBrowser (Fin 6400) ?a)"
  have pos: "(0::real) < 1500" "(0::real) < 4800" by simp_all
  note first = first_spin_frame [OF sampleReel_fields(2) pos(1) sample_spin(1) pos(2),
      of sampleBrowser 0]
  have le: "((6400::real) - 0) / 1000 \<le> 2 * 4800 / 1500" by simp
  note second = running_spin_frame [OF first(1-5) le, of sampleBrowser]
  have late: "2 * 4800 / 1500 < ((6401::real) - 0) / 1000" by simp
  have step: "spinStep (Fin 6401) ?b
                = ?b\<lparr>offset := spinDist ?b, mode := Pause, pauseStart := Some (Fin 6401)\<rparr>"
    by (rule spinStep_over [OF second(2,5) late])
  have "mode (tick_state (tick sampleBrowser (Fin 6401) ?b)) = Pause"
    by (simp add: tick_in_spin(2) [OF second(1)] step)
  moreover have "targetIdx (tick_state (tick sampleBrowser (Fin 6401) ?b)) = Fin 2"
    using sample_target by (simp only: tick_targetIdx)
  ultimately show ?thesis
    using second(1) by (simp add: tick_calls_no_hook)
qed

text \<open>Revision v3.3 calls the hook in the frame that ends the spin, and in no later one.\<close>

lemma tick_v33_calls_onStop:
  assumes "mode_v33 s = Spin" "spinStart_v33 s = Some (Fin t0)" "t0 \<noteq> 0"
    and "spinDurSec_v33 s = Fin T" "T \<le> (t - t0) / 1000"
  shows "snd (tick_v33 (Fin t) s) = [targetIdx_v33 s]"
    and "mode_v33 (fst (tick_v33 (Fin t) s)) = Highlight"
  using assms
  by (simp_all add: tick_v33_def spinStep_v33_def falsy_def truthy_def to_number_def
        js_sub_def Let_def)

lemma tick_v33_running_silent:
  assumes "mode_v33 s = Spin" "spinStart_v33 s = Some (Fin t0)" "t0 \<noteq> 0"
    and "spinDurSec_v33 s = Fin T" "(t - t0) / 1000 < T"
  shows "snd (tick_v33 (Fin t) s) = []"
  using assms
  by (simp_all add: tick_v33_def spinStep_v33_def falsy_def truthy_def to_number_def
        js_sub_def Let_def)

lemma tick_v33_highlight_silent:
  assumes "mode_v33 s = Highlight"
  shows "snd (tick_v33 ts s) = []" and "mode_v33 (fst (tick_v33 ts s)) = Highlight"
  using assms by (simp_all add: tick_v33_def Let_def)

end
